theory Spec2Isabelle
  imports Main
begin

section \<open>JavaScript values used by the parser\<close>

text \<open>
  The embedding follows \<^verbatim>\<open>src/cronParser.ts\<close> (class \<^verbatim>\<open>CronParser\<close>).
  A JavaScript number that the parser obtains from \<^verbatim>\<open>parseInt\<close> is either an
  integer or \<^verbatim>\<open>NaN\<close>.  All integers that occur are compared with small bounds
  only, so unbounded integers stand for the doubles of the source.
\<close>

datatype number = Num int | NaN

definition numAdd :: "number \<Rightarrow> number \<Rightarrow> number" where
  "numAdd a b = (case a of NaN \<Rightarrow> NaN | Num x \<Rightarrow> (case b of NaN \<Rightarrow> NaN | Num y \<Rightarrow> Num (x + y)))"

text \<open>Truthiness of a number: \<^verbatim>\<open>0\<close> and \<^verbatim>\<open>NaN\<close> are falsy.\<close>

definition truthy :: "number \<Rightarrow> bool" where
  "truthy a = (case a of NaN \<Rightarrow> False | Num x \<Rightarrow> x \<noteq> 0)"

text \<open>\<^verbatim>\<open>xs[0]\<close>: \<^verbatim>\<open>undefined\<close> on the empty array.\<close>

definition nth0 :: "'a list \<Rightarrow> 'a option" where
  "nth0 xs = (case xs of [] \<Rightarrow> None | x # _ \<Rightarrow> Some x)"

text \<open>\<^verbatim>\<open>xs[xs.length - 1]\<close>: \<^verbatim>\<open>undefined\<close> on the empty array.\<close>

definition nthLast :: "'a list \<Rightarrow> 'a option" where
  "nthLast xs = (case rev xs of [] \<Rightarrow> None | x # _ \<Rightarrow> Some x)"

text \<open>The nullish coalescing operator \<^verbatim>\<open>a ?? b\<close>.\<close>

definition orElse :: "'a option \<Rightarrow> 'a option \<Rightarrow> 'a option" where
  "orElse a b = (case a of None \<Rightarrow> b | Some x \<Rightarrow> Some x)"

subsection \<open>Strings\<close>

text \<open>
  White space of \<^verbatim>\<open>\s\<close> and \<^verbatim>\<open>trim\<close>, restricted to the ASCII characters
  (strings are byte lists here).
\<close>

definition isSpace :: "char \<Rightarrow> bool" where
  "isSpace c = (c \<in> set [CHR '' '', CHR 0x09, CHR 0x0A, CHR 0x0B, CHR 0x0C, CHR 0x0D])"

definition trim :: "string \<Rightarrow> string" where
  "trim s = rev (dropWhile isSpace (rev (dropWhile isSpace s)))"

text \<open>\<^verbatim>\<open>s.split(/\s+/)\<close>: every maximal run of white space is one separator.\<close>

fun splitSpaces :: "string \<Rightarrow> string \<Rightarrow> string list" where
  "splitSpaces cur [] = [cur]"
| "splitSpaces cur (c # cs) =
     (if isSpace c then
        (case cs of
           [] \<Rightarrow> cur # splitSpaces [] cs
         | c' # _ \<Rightarrow> if isSpace c' then splitSpaces cur cs else cur # splitSpaces [] cs)
      else splitSpaces (cur @ [c]) cs)"

text \<open>\<^verbatim>\<open>s.split(c)\<close> for a one-character separator.\<close>

fun splitOn :: "char \<Rightarrow> string \<Rightarrow> string list" where
  "splitOn c [] = [[]]"
| "splitOn c (x # xs) =
     (if x = c then [] # splitOn c xs
      else (case splitOn c xs of [] \<Rightarrow> [[x]] | w # ws \<Rightarrow> (x # w) # ws))"

definition upperChar :: "char \<Rightarrow> char" where
  "upperChar c = (let n = (of_char c :: nat) in if 97 \<le> n \<and> n \<le> 122 then char_of (n - 32) else c)"

definition toUpperCase :: "string \<Rightarrow> string" where
  "toUpperCase s = map upperChar s"

definition endsWith :: "string \<Rightarrow> char \<Rightarrow> bool" where
  "endsWith s c = (case rev s of [] \<Rightarrow> False | x # _ \<Rightarrow> x = c)"

definition startsWith :: "string \<Rightarrow> string \<Rightarrow> bool" where
  "startsWith s pre = (take (length pre) s = pre)"

subsection \<open>parseInt(s, 10) and number formatting\<close>

definition digitVal :: "char \<Rightarrow> int option" where
  "digitVal c = (let n = (of_char c :: nat) in if 48 \<le> n \<and> n \<le> 57 then Some (int n - 48) else None)"

fun parseDigits :: "int \<Rightarrow> string \<Rightarrow> int" where
  "parseDigits acc [] = acc"
| "parseDigits acc (c # cs) =
     (case digitVal c of None \<Rightarrow> acc | Some v \<Rightarrow> parseDigits (acc * 10 + v) cs)"

text \<open>
  Leading white space is skipped, one sign is read, then the longest prefix of decimal
  digits; no digit at all gives \<^verbatim>\<open>NaN\<close>.
\<close>

definition parseInt :: "string \<Rightarrow> number" where
  "parseInt s =
     (let t = dropWhile isSpace s;
          neg = (case t of [] \<Rightarrow> False | c # _ \<Rightarrow> c = CHR ''-'');
          u = (case t of [] \<Rightarrow> [] | c # r \<Rightarrow> if c = CHR ''-'' \<or> c = CHR ''+'' then r else t)
      in case u of
           [] \<Rightarrow> NaN
         | c # _ \<Rightarrow>
             (case digitVal c of
                None \<Rightarrow> NaN
              | Some _ \<Rightarrow> Num (if neg then - parseDigits 0 u else parseDigits 0 u)))"

text \<open>\<^verbatim>\<open>parseInt(undefined, 10)\<close> is \<^verbatim>\<open>NaN\<close>.\<close>

definition parseIntU :: "string option \<Rightarrow> number" where
  "parseIntU s = (case s of None \<Rightarrow> NaN | Some t \<Rightarrow> parseInt t)"

fun digitsOf :: "nat \<Rightarrow> string" where
  "digitsOf n = (if n < 10 then [char_of (48 + n)] else digitsOf (n div 10) @ [char_of (48 + n mod 10)])"

definition toStringJs :: "int \<Rightarrow> string" where
  "toStringJs i = (if i < 0 then CHR ''-'' # digitsOf (nat (- i)) else digitsOf (nat i))"

subsection \<open>Name aliases\<close>

definition monthMap :: "(string \<times> int) list" where
  "monthMap = [(''JAN'', 1), (''FEB'', 2), (''MAR'', 3), (''APR'', 4), (''MAY'', 5), (''JUN'', 6),
               (''JUL'', 7), (''AUG'', 8), (''SEP'', 9), (''OCT'', 10), (''NOV'', 11), (''DEC'', 12)]"

definition dayMap :: "(string \<times> int) list" where
  "dayMap = [(''SUN'', 0), (''MON'', 1), (''TUE'', 2), (''WED'', 3), (''THU'', 4), (''FRI'', 5),
             (''SAT'', 6)]"

definition monthNames :: "string list" where
  "monthNames = [''January'', ''February'', ''March'', ''April'', ''May'', ''June'', ''July'',
                 ''August'', ''September'', ''October'', ''November'', ''December'']"

text \<open>
  \<^verbatim>\<open>field.replace(/JAN|FEB|.../g, m => map[m].toString())\<close>: a left-to-right scan;
  every alias has three letters.
\<close>

fun replaceNames :: "(string \<times> int) list \<Rightarrow> string \<Rightarrow> string" where
  "replaceNames tbl [] = []"
| "replaceNames tbl (c # cs) =
     (case map_of tbl (take 3 (c # cs)) of
        Some n \<Rightarrow> toStringJs n @ replaceNames tbl (drop 2 cs)
      | None \<Rightarrow> c # replaceNames tbl cs)"

datatype fieldType = MonthField | DayOfWeekField | DayOfMonthField

definition normalizeField :: "string \<Rightarrow> fieldType \<Rightarrow> string" where
  "normalizeField field ty =
     (let f = toUpperCase field in
      case ty of
        MonthField \<Rightarrow> replaceNames monthMap f
      | DayOfWeekField \<Rightarrow> map (\<lambda>c. if c = CHR ''7'' then CHR ''0'' else c) (replaceNames dayMap f)
      | DayOfMonthField \<Rightarrow> f)"

section \<open>Errors and results\<close>

text \<open>
  Every \<^verbatim>\<open>throw new CronError(...)\<close> of the source is one constructor; the
  constructor keeps the values that the message interpolates.  \<open>TypeError\<close> stands for
  the run-time error of a method call on \<^verbatim>\<open>undefined\<close>.
\<close>

datatype error =
    InvalidStep string
  | InvalidValue string int int
  | InvalidRange string int int
  | InvalidFieldCount
  | DayFieldsConflict
  | InvalidDate int "string option"
  | InvalidNth
  | NoNextExecution
  | NoPreviousExecution
  | TypeError

text \<open>
  A call either throws, returns, or never returns: \<open>None\<close> is a computation that
  does not return, \<open>Some (Inl e)\<close> a thrown error, \<open>Some (Inr x)\<close> a result.
\<close>

type_synonym 'a outcome = "(error + 'a) option"

definition ok :: "'a \<Rightarrow> 'a outcome" where
  "ok x = Some (Inr x)"

definition throw :: "error \<Rightarrow> 'a outcome" where
  "throw e = Some (Inl e)"

definition thenO :: "'a outcome \<Rightarrow> ('a \<Rightarrow> 'b outcome) \<Rightarrow> 'b outcome" where
  "thenO m f = (case m of None \<Rightarrow> None | Some (Inl e) \<Rightarrow> Some (Inl e) | Some (Inr x) \<Rightarrow> f x)"

text \<open>A loop result (\<open>None\<close>: the loop runs forever) continued by a computation.\<close>

definition thenLoop :: "'a option \<Rightarrow> ('a \<Rightarrow> 'b outcome) \<Rightarrow> 'b outcome" where
  "thenLoop m f = (case m of None \<Rightarrow> None | Some x \<Rightarrow> f x)"

text \<open>\<^verbatim>\<open>xs.flatMap(f)\<close> / \<^verbatim>\<open>xs.map(f)\<close> with a callback that may throw: left to right, the first throw wins.\<close>

fun traverse :: "('a \<Rightarrow> 'b outcome) \<Rightarrow> 'a list \<Rightarrow> 'b list outcome" where
  "traverse f [] = ok []"
| "traverse f (x # xs) = thenO (f x) (\<lambda>y. thenO (traverse f xs) (\<lambda>ys. ok (y # ys)))"

lemma traverse_cong [fundef_cong]:
  "xs = ys \<Longrightarrow> (\<And>x. x \<in> set ys \<Longrightarrow> f x = g x) \<Longrightarrow> traverse f xs = traverse g ys"
  by (induction ys arbitrary: xs) auto

section \<open>Parsing one field\<close>

record CronField =
  vals :: "int list"
  step :: "number option"

text \<open>
  \<^verbatim>\<open>for (let i = start; i <= end; i += step) values.push(i)\<close>.  The source only
  excludes \<^verbatim>\<open>step === 0\<close> before the loop, so the loop is not known to end.
\<close>

partial_function (option) stepLoop :: "number \<Rightarrow> int \<Rightarrow> number \<Rightarrow> int list \<Rightarrow> int list option" where
  "stepLoop i e s acc =
     (case i of
        NaN \<Rightarrow> Some acc
      | Num k \<Rightarrow> if k \<le> e then stepLoop (numAdd i s) e s (acc @ [k]) else Some acc)"

declare stepLoop.simps [code]

text \<open>
  \<^verbatim>\<open>for (let i = values[0]; i <= max; i += step) if (values.includes(i)) steppedValues.push(i)\<close>.
\<close>

partial_function (option) steppedLoop :: "number \<Rightarrow> int \<Rightarrow> number \<Rightarrow> int list \<Rightarrow> int list \<Rightarrow> int list option" where
  "steppedLoop i mx s vs acc =
     (case i of
        NaN \<Rightarrow> Some acc
      | Num k \<Rightarrow>
          if k \<le> mx then steppedLoop (numAdd i s) mx s vs (if k \<in> set vs then acc @ [k] else acc)
          else Some acc)"

declare steppedLoop.simps [code]

text \<open>\<^verbatim>\<open>arr.filter((v, i, a) => a.indexOf(v) === i)\<close>: the first occurrence of each value is kept.\<close>

definition uniqueFirst :: "int list \<Rightarrow> int list" where
  "uniqueFirst xs = rev (remdups (rev xs))"

definition parseRange :: "string \<Rightarrow> int \<Rightarrow> int \<Rightarrow> (int \<times> int) outcome" where
  "parseRange rng mn mx =
     (let parts = splitOn (CHR ''-'') rng;
          start = parseIntU (nth0 parts);
          en = parseIntU (nth0 (drop 1 parts))
      in case start of
           NaN \<Rightarrow> throw (InvalidRange rng mn mx)
         | Num a \<Rightarrow>
             (case en of
                NaN \<Rightarrow> throw (InvalidRange rng mn mx)
              | Num b \<Rightarrow>
                  if a < mn \<or> b > mx \<or> a > b then throw (InvalidRange rng mn mx)
                  else ok (a, b)))"

text \<open>A single value: \<^verbatim>\<open>parseInt\<close>, then the \<^verbatim>\<open>isNaN(value) || value < min || value > max\<close> guard.\<close>

definition parseValue :: "string \<Rightarrow> int \<Rightarrow> int \<Rightarrow> int outcome" where
  "parseValue s mn mx =
     (case parseInt s of
        NaN \<Rightarrow> throw (InvalidValue s mn mx)
      | Num v \<Rightarrow> if v < mn \<or> v > mx then throw (InvalidValue s mn mx) else ok v)"

lemma splitOn_nonempty: "splitOn c s \<noteq> []"
  by (induction s) (auto split: list.splits)

lemma splitOn_part_le:
  "p \<in> set (splitOn c s) \<Longrightarrow> length p \<le> length s"
proof (induction s arbitrary: p)
  case Nil
  then show ?case by simp
next
  case (Cons x xs)
  show ?case
  proof (cases "x = c")
    case True
    with Cons.prems have "p = [] \<or> p \<in> set (splitOn c xs)" by simp
    then show ?thesis using Cons.IH by (auto intro: le_SucI)
  next
    case False
    show ?thesis
    proof (cases "splitOn c xs")
      case Nil
      with False Cons.prems show ?thesis by simp
    next
      case (Cons w ws)
      with False Cons.prems have "p = x # w \<or> p \<in> set ws" by simp
      then show ?thesis
      proof
        assume "p = x # w"
        moreover have "length w \<le> length xs" using Cons.IH[of w] Cons by simp
        ultimately show ?thesis by simp
      next
        assume "p \<in> set ws"
        then have "length p \<le> length xs" using Cons.IH[of p] Cons by simp
        then show ?thesis by simp
      qed
    qed
  qed
qed

lemma splitOn_part_shorter:
  "c \<in> set s \<Longrightarrow> p \<in> set (splitOn c s) \<Longrightarrow> length p < length s"
proof (induction s arbitrary: p)
  case Nil
  then show ?case by simp
next
  case (Cons x xs)
  show ?case
  proof (cases "x = c")
    case True
    with Cons.prems have "p = [] \<or> p \<in> set (splitOn c xs)" by simp
    then show ?thesis using splitOn_part_le[of p c xs] by (auto intro: le_imp_less_Suc)
  next
    case False
    with Cons.prems have cin: "c \<in> set xs" by simp
    show ?thesis
    proof (cases "splitOn c xs")
      case Nil
      then show ?thesis using splitOn_nonempty[of c xs] by simp
    next
      case (Cons w ws)
      with False Cons.prems have "p = x # w \<or> p \<in> set ws" by simp
      then show ?thesis
      proof
        assume "p = x # w"
        moreover have "length w < length xs" using Cons.IH[OF cin, of w] Cons by simp
        ultimately show ?thesis by simp
      next
        assume "p \<in> set ws"
        then have "length p < length xs" using Cons.IH[OF cin, of p] Cons by simp
        then show ?thesis by simp
      qed
    qed
  qed
qed

function parseField :: "string \<Rightarrow> int \<Rightarrow> int \<Rightarrow> CronField outcome" where
  "parseField field mn mx =
     (if field = ''*'' then ok \<lparr>vals = [mn..mx], step = None\<rparr>
      else if CHR ''/'' \<in> set field then
        (case splitOn (CHR ''/'') field of
           [] \<Rightarrow> throw TypeError
         | rangeStr # rest \<Rightarrow>
             (let stp = parseIntU (nth0 rest) in
              if stp = Num 0 then throw (InvalidStep field)
              else if CHR '','' \<in> set rangeStr then
                thenO (traverse
                         (\<lambda>rng.
                            if CHR ''-'' \<in> set rng
                            then thenO (parseRange rng mn mx) (\<lambda>(start, en). ok [start..en])
                            else thenO (parseValue rng mn mx) (\<lambda>v. ok [v]))
                         (splitOn (CHR '','') rangeStr))
                  (\<lambda>vss. let vs = concat vss in
                     thenLoop (case nth0 vs of None \<Rightarrow> Some [] | Some v0 \<Rightarrow> steppedLoop (Num v0) mx stp vs [])
                       (\<lambda>sv. ok \<lparr>vals = sort sv, step = Some stp\<rparr>))
              else
                thenO (parseRange (if rangeStr = ''*'' then toStringJs mn @ ''-'' @ toStringJs mx
                                   else rangeStr) mn mx)
                  (\<lambda>(start, en).
                     thenLoop (stepLoop (Num start) en stp [])
                       (\<lambda>vs. ok \<lparr>vals = vs, step = Some stp\<rparr>))))
      else if CHR '','' \<in> set field then
        thenO (traverse (\<lambda>part. parseField part mn mx) (splitOn (CHR '','') field))
          (\<lambda>fs. ok \<lparr>vals = sort (uniqueFirst (concat (map vals fs))), step = None\<rparr>)
      else if CHR ''-'' \<in> set field then
        thenO (parseRange field mn mx) (\<lambda>(start, en). ok \<lparr>vals = [start..en], step = None\<rparr>)
      else thenO (parseValue field mn mx) (\<lambda>v. ok \<lparr>vals = [v], step = None\<rparr>))"
  by pat_completeness auto
termination
  by (relation "measure (\<lambda>(field, mn, mx). length field)") (auto simp: splitOn_part_shorter)

declare parseField.simps [simp del]

section \<open>The parsed schedule\<close>

record DayOfMonthModifiers =
  lastDay :: bool
  lastDayOffset :: number
  lastWeekday :: bool
  nearestWeekday :: bool

record DayOfWeekModifiers =
  nthDay :: number
  dowLastDay :: bool

text \<open>
  The fields of a \<^verbatim>\<open>CronParser\<close> object.  The time zone is fixed to UTC in this
  development (see the calendar section), and the stored expression text only feeds
  the debug log, so neither is a field here.
\<close>

record CronParser =
  seconds :: CronField
  minutes :: CronField
  hours :: CronField
  daysOfMonth :: CronField
  months :: CronField
  daysOfWeek :: CronField
  years :: CronField
  dayOfMonthModifiers :: DayOfMonthModifiers
  dayOfWeekModifiers :: DayOfWeekModifiers

text \<open>The field initialisers of the class.\<close>

definition initialParser :: CronParser where
  "initialParser =
     \<lparr>seconds = \<lparr>vals = [0], step = None\<rparr>,
      minutes = \<lparr>vals = [], step = None\<rparr>,
      hours = \<lparr>vals = [], step = None\<rparr>,
      daysOfMonth = \<lparr>vals = [], step = None\<rparr>,
      months = \<lparr>vals = [], step = None\<rparr>,
      daysOfWeek = \<lparr>vals = [], step = None\<rparr>,
      years = \<lparr>vals = [], step = None\<rparr>,
      dayOfMonthModifiers =
        \<lparr>lastDay = False, lastDayOffset = Num 0, lastWeekday = False, nearestWeekday = False\<rparr>,
      dayOfWeekModifiers = \<lparr>nthDay = Num 0, dowLastDay = False\<rparr>\<rparr>"

subsection \<open>Day of month\<close>

definition maxDaysInMonth :: "(int \<times> int) list" where
  "maxDaysInMonth = [(1, 31), (2, 29), (3, 31), (4, 30), (5, 31), (6, 30), (7, 31), (8, 31),
                     (9, 30), (10, 31), (11, 30), (12, 31)]"

text \<open>\<^verbatim>\<open>monthNames[month - 1]\<close>\<close>

definition monthName :: "int \<Rightarrow> string option" where
  "monthName m = (if 1 \<le> m \<and> m \<le> 12 then Some (monthNames ! nat (m - 1)) else None)"

text \<open>
  The two nested \<^verbatim>\<open>for ... of\<close> loops of \<^verbatim>\<open>parseDayOfMonth\<close>: the result is
  the first error thrown, if any.  A comparison with \<^verbatim>\<open>undefined\<close> is false.
\<close>

fun checkMonths :: "int \<Rightarrow> int list \<Rightarrow> error option" where
  "checkMonths dy [] = None"
| "checkMonths dy (m # ms) =
     (if m = 2 \<and> dy = 29 then checkMonths dy ms
      else if (case map_of maxDaysInMonth m of None \<Rightarrow> False | Some mxd \<Rightarrow> dy > mxd)
      then Some (InvalidDate dy (monthName m))
      else checkMonths dy ms)"

fun checkDays :: "int list \<Rightarrow> int list \<Rightarrow> error option" where
  "checkDays [] ms = None"
| "checkDays (dy # ds) ms =
     (case checkMonths dy ms of Some e \<Rightarrow> Some e | None \<Rightarrow> checkDays ds ms)"

text \<open>
  The methods below assign to fields of \<^verbatim>\<open>this\<close>; the object is passed in and
  returned.  \<^verbatim>\<open>parseDayOfMonth\<close> reads \<^verbatim>\<open>this.months\<close> as it is at the time of
  the call.
\<close>

definition parseDayOfMonth :: "string \<Rightarrow> CronParser \<Rightarrow> CronParser outcome" where
  "parseDayOfMonth field p =
     (if field = ''?'' then ok p
      else
        (let v = normalizeField field DayOfMonthField in
         if endsWith v (CHR ''W'') then
           (let v' = butlast v in
            if v' = ''L''
            then ok (p\<lparr>dayOfMonthModifiers := (dayOfMonthModifiers p)\<lparr>lastWeekday := True\<rparr>\<rparr>)
            else thenO (parseField v' 1 31)
                   (\<lambda>f. ok (p\<lparr>dayOfMonthModifiers := (dayOfMonthModifiers p)\<lparr>nearestWeekday := True\<rparr>,
                               daysOfMonth := f\<rparr>)))
         else if startsWith v ''L-'' then
           ok (p\<lparr>dayOfMonthModifiers :=
                    (dayOfMonthModifiers p)\<lparr>lastDay := True, lastDayOffset := parseInt (drop 2 v)\<rparr>\<rparr>)
         else if v = ''L'' then
           ok (p\<lparr>dayOfMonthModifiers := (dayOfMonthModifiers p)\<lparr>lastDay := True\<rparr>\<rparr>)
         else
           thenO (parseField v 1 31)
             (\<lambda>f. if length (vals f) > 0 \<and> length (vals (months p)) > 0
                   then (case checkDays (vals f) (vals (months p)) of
                           Some e \<Rightarrow> throw e
                         | None \<Rightarrow> ok (p\<lparr>daysOfMonth := f\<rparr>))
                   else ok (p\<lparr>daysOfMonth := f\<rparr>))))"

subsection \<open>Month and day of week\<close>

definition parseMonth :: "string \<Rightarrow> CronParser \<Rightarrow> CronParser outcome" where
  "parseMonth field p =
     thenO (parseField (normalizeField field MonthField) 1 12) (\<lambda>f. ok (p\<lparr>months := f\<rparr>))"

definition parseDayOfWeek :: "string \<Rightarrow> CronParser \<Rightarrow> CronParser outcome" where
  "parseDayOfWeek field p =
     (if field = ''?'' then ok p
      else
        (let f = normalizeField field DayOfWeekField in
         if endsWith f (CHR ''L'') then
           thenO (parseField (butlast f) 0 6)
             (\<lambda>cf. ok (p\<lparr>dayOfWeekModifiers := (dayOfWeekModifiers p)\<lparr>dowLastDay := True\<rparr>,
                          daysOfWeek := cf\<rparr>))
         else if CHR ''#'' \<in> set f then
           (let parts = splitOn (CHR ''#'') f;
                n = parseIntU (nth0 (drop 1 parts))
            in if (case n of NaN \<Rightarrow> False | Num k \<Rightarrow> k < 1 \<or> k > 5) then throw InvalidNth
               else (case nth0 parts of
                       None \<Rightarrow> throw TypeError
                     | Some dayStr \<Rightarrow>
                         thenO (parseField dayStr 0 6)
                           (\<lambda>cf. ok (p\<lparr>dayOfWeekModifiers := (dayOfWeekModifiers p)\<lparr>nthDay := n\<rparr>,
                                        daysOfWeek := cf\<rparr>))))
         else thenO (parseField f 0 6) (\<lambda>cf. ok (p\<lparr>daysOfWeek := cf\<rparr>))))"

subsection \<open>The whole expression\<close>

text \<open>\<^verbatim>\<open>fields[i]\<close>: \<^verbatim>\<open>undefined\<close> beyond the end of the array.\<close>

definition fieldAt :: "string list \<Rightarrow> nat \<Rightarrow> string option" where
  "fieldAt flds i = (if i < length flds then Some (flds ! i) else None)"

text \<open>A method applied to \<^verbatim>\<open>fields[i]\<close>; on \<^verbatim>\<open>undefined\<close> its first method call is a type error.\<close>

definition withField :: "string list \<Rightarrow> nat \<Rightarrow> (string \<Rightarrow> 'a outcome) \<Rightarrow> 'a outcome" where
  "withField flds i f = (case fieldAt flds i of None \<Rightarrow> throw TypeError | Some s \<Rightarrow> f s)"

text \<open>\<^verbatim>\<open>f !== '?' && f !== '*'\<close> on a possibly undefined array element.\<close>

definition notWildcard :: "string option \<Rightarrow> bool" where
  "notWildcard f = (f \<noteq> Some ''?'' \<and> f \<noteq> Some ''*'')"

definition parse :: "string \<Rightarrow> CronParser \<Rightarrow> CronParser outcome" where
  "parse cronString p =
     (let flds = splitSpaces [] (trim cronString) in
      if length flds < 5 \<or> length flds > 7 then throw InvalidFieldCount
      else if notWildcard (fieldAt flds 3) \<and> notWildcard (fieldAt flds 5)
      then throw DayFieldsConflict
      else
        (let idx = (if length flds > 5 then 1 else 0) in
         thenO (if length flds > 5 then withField flds 0 (\<lambda>f. parseField f 0 59)
                else ok \<lparr>vals = [0], step = None\<rparr>)
           (\<lambda>sec. thenO (withField flds idx (\<lambda>f. parseField f 0 59))
           (\<lambda>mi. thenO (withField flds (idx + 1) (\<lambda>f. parseField f 0 23))
           (\<lambda>hr. thenO (withField flds (idx + 2)
                           (\<lambda>f. parseDayOfMonth f (p\<lparr>seconds := sec, minutes := mi, hours := hr\<rparr>)))
           (\<lambda>p1. thenO (withField flds (idx + 3) (\<lambda>f. parseMonth f p1))
           (\<lambda>p2. thenO (withField flds (idx + 4) (\<lambda>f. parseDayOfWeek f p2))
           (\<lambda>p3. if length flds = 7
                  then thenO (withField flds (idx + 5) (\<lambda>f. parseField f 1970 2099))
                         (\<lambda>yr. ok (p3\<lparr>years := yr\<rparr>))
                  else ok p3))))))))"

text \<open>
  \<^verbatim>\<open>new CronParser(cronString, timezone)\<close> with \<^verbatim>\<open>timezone = 'UTC'\<close>: the
  initialised object is handed to \<^verbatim>\<open>parse\<close>.
\<close>

definition constructor :: "string \<Rightarrow> CronParser outcome" where
  "constructor cronString = parse cronString initialParser"

section \<open>The calendar\<close>

text \<open>
  The source computes with \<^verbatim>\<open>DateTime\<close> values of the luxon library in the zone
  of the schedule.  The library is not part of the repository; this section states the
  operations the source calls, for the zone UTC: the proleptic Gregorian calendar
  without offset changes.  An invalid \<^verbatim>\<open>DateTime\<close> (one with an
  \<^verbatim>\<open>invalidReason\<close>) is \<open>None\<close>.
\<close>

record DateTime =
  year :: int
  month :: int
  day :: int
  hour :: int
  minute :: int
  second :: int
  millisecond :: int

definition isLeapYear :: "int \<Rightarrow> bool" where
  "isLeapYear y = (y mod 4 = 0 \<and> (y mod 100 \<noteq> 0 \<or> y mod 400 = 0))"

definition daysInMonth :: "int \<Rightarrow> int \<Rightarrow> int" where
  "daysInMonth y m =
     (if m = 2 then (if isLeapYear y then 29 else 28)
      else if m = 4 \<or> m = 6 \<or> m = 9 \<or> m = 11 then 30
      else 31)"

text \<open>Days since 1970-01-01 of a civil date.\<close>

definition daysFromCivil :: "int \<Rightarrow> int \<Rightarrow> int \<Rightarrow> int" where
  "daysFromCivil y m d =
     (let y' = (if m \<le> 2 then y - 1 else y);
          era = y' div 400;
          yoe = y' - era * 400;
          doy = (153 * (if m > 2 then m - 3 else m + 9) + 2) div 5 + d - 1;
          doe = yoe * 365 + yoe div 4 - yoe div 100 + doy
      in era * 146097 + doe - 719468)"

text \<open>\<^verbatim>\<open>dt.weekday\<close>: 1 is Monday, 7 is Sunday.\<close>

definition weekdayOf :: "int \<Rightarrow> int \<Rightarrow> int \<Rightarrow> int" where
  "weekdayOf y m d = (daysFromCivil y m d + 3) mod 7 + 1"

definition weekday :: "DateTime \<Rightarrow> int" where
  "weekday dt = weekdayOf (year dt) (month dt) (day dt)"

text \<open>
  \<^verbatim>\<open>DateTime.fromObject({year, month, day, hour, minute, second}, {zone})\<close>: a unit
  out of range gives an invalid value.
\<close>

definition fromObject :: "int \<Rightarrow> int \<Rightarrow> int \<Rightarrow> int \<Rightarrow> int \<Rightarrow> int \<Rightarrow> DateTime option" where
  "fromObject y m d h mi s =
     (if 1 \<le> m \<and> m \<le> 12 \<and> 1 \<le> d \<and> d \<le> daysInMonth y m
         \<and> 0 \<le> h \<and> h \<le> 23 \<and> 0 \<le> mi \<and> mi \<le> 59 \<and> 0 \<le> s \<and> s \<le> 59
      then Some \<lparr>year = y, month = m, day = d, hour = h, minute = mi, second = s, millisecond = 0\<rparr>
      else None)"

text \<open>\<^verbatim>\<open>dt.toUnixInteger()\<close>: whole seconds since the epoch.\<close>

definition toUnixInteger :: "DateTime \<Rightarrow> int" where
  "toUnixInteger dt =
     daysFromCivil (year dt) (month dt) (day dt) * 86400
       + hour dt * 3600 + minute dt * 60 + second dt"

text \<open>\<^verbatim>\<open>d.plus({ seconds: 1 }).startOf('second')\<close>\<close>

definition plusSecond :: "DateTime \<Rightarrow> DateTime" where
  "plusSecond dt =
     (if second dt < 59 then dt\<lparr>second := second dt + 1, millisecond := 0\<rparr>
      else if minute dt < 59 then dt\<lparr>minute := minute dt + 1, second := 0, millisecond := 0\<rparr>
      else if hour dt < 23 then dt\<lparr>hour := hour dt + 1, minute := 0, second := 0, millisecond := 0\<rparr>
      else if day dt < daysInMonth (year dt) (month dt)
      then dt\<lparr>day := day dt + 1, hour := 0, minute := 0, second := 0, millisecond := 0\<rparr>
      else if month dt < 12
      then dt\<lparr>month := month dt + 1, day := 1, hour := 0, minute := 0, second := 0, millisecond := 0\<rparr>
      else dt\<lparr>year := year dt + 1, month := 1, day := 1, hour := 0, minute := 0, second := 0,
               millisecond := 0\<rparr>)"

text \<open>\<^verbatim>\<open>d.minus({ seconds: 1 }).endOf('second')\<close>\<close>

definition minusSecond :: "DateTime \<Rightarrow> DateTime" where
  "minusSecond dt =
     (if second dt > 0 then dt\<lparr>second := second dt - 1, millisecond := 999\<rparr>
      else if minute dt > 0 then dt\<lparr>minute := minute dt - 1, second := 59, millisecond := 999\<rparr>
      else if hour dt > 0 then dt\<lparr>hour := hour dt - 1, minute := 59, second := 59, millisecond := 999\<rparr>
      else if day dt > 1
      then dt\<lparr>day := day dt - 1, hour := 23, minute := 59, second := 59, millisecond := 999\<rparr>
      else if month dt > 1
      then dt\<lparr>month := month dt - 1, day := daysInMonth (year dt) (month dt - 1), hour := 23,
               minute := 59, second := 59, millisecond := 999\<rparr>
      else dt\<lparr>year := year dt - 1, month := 12, day := 31, hour := 23, minute := 59, second := 59,
               millisecond := 999\<rparr>)"

section \<open>Matching an instant\<close>

text \<open>\<^verbatim>\<open>vals.find(v => v >= val) ?? vals[0]\<close>\<close>

definition getNextValue :: "int list \<Rightarrow> int \<Rightarrow> int option" where
  "getNextValue vs v = orElse (find (\<lambda>x. x \<ge> v) vs) (nth0 vs)"

text \<open>\<^verbatim>\<open>vals.slice().reverse().find(v => v <= val) ?? vals[vals.length - 1]\<close>\<close>

definition getPreviousValue :: "int list \<Rightarrow> int \<Rightarrow> int option" where
  "getPreviousValue vs v = orElse (find (\<lambda>x. x \<le> v) (rev vs)) (nthLast vs)"

text \<open>
  The \<^verbatim>\<open>while\<close> loop of the last-weekday-of-month test: from the last day of the
  month down to the first day whose weekday is the target, stopping at day 1.
\<close>

function lastDowLoop :: "int \<Rightarrow> int \<Rightarrow> int option \<Rightarrow> int \<Rightarrow> int" where
  "lastDowLoop y m targetDow d =
     (if Some (weekdayOf y m d mod 7) \<noteq> targetDow \<and> d > 1 then lastDowLoop y m targetDow (d - 1)
      else d)"
  by pat_completeness auto
termination
  by (relation "measure (\<lambda>(y, m, t, d). nat d)") auto

declare lastDowLoop.simps [simp del]

definition isDayOfWeekSatisfied :: "CronParser \<Rightarrow> DateTime \<Rightarrow> bool" where
  "isDayOfWeekSatisfied p dt =
     (let dow = weekday dt mod 7 in
      if truthy (nthDay (dayOfWeekModifiers p)) then
        (if Some dow \<noteq> nth0 (vals (daysOfWeek p)) then False
         else (let week = (day dt - 1) div 7 + 1 in
               Num week = nthDay (dayOfWeekModifiers p) \<and> week \<le> 5))
      else if dowLastDay (dayOfWeekModifiers p) then
        (let ldom = daysInMonth (year dt) (month dt);
             targetDow = nth0 (vals (daysOfWeek p));
             testDay = lastDowLoop (year dt) (month dt) targetDow ldom
         in day dt = testDay \<and> Some (weekdayOf (year dt) (month dt) testDay mod 7) = targetDow)
      else length (vals (daysOfWeek p)) = 0 \<or> dow \<in> set (vals (daysOfWeek p)))"

definition getDayOfMonthSet :: "CronParser \<Rightarrow> int \<Rightarrow> int \<Rightarrow> int list" where
  "getDayOfMonthSet p y m =
     (case fromObject y m 1 0 0 0 of
        None \<Rightarrow> []
      | Some dt \<Rightarrow>
          (let ldom = daysInMonth y m in
           if lastDay (dayOfMonthModifiers p) then
             (case lastDayOffset (dayOfMonthModifiers p) of
                NaN \<Rightarrow> []
              | Num off \<Rightarrow> if ldom - off \<ge> 1 then [ldom - off] else [])
           else if lastWeekday (dayOfMonthModifiers p) then
             (let dow = weekdayOf y m ldom mod 7;
                  offset = (if dow = 6 then 1 else if dow = 0 then 2 else 0)
              in [ldom - offset])
           else if nearestWeekday (dayOfMonthModifiers p) then
             (let target = (case nth0 (vals (daysOfMonth p)) of None \<Rightarrow> 1 | Some t \<Rightarrow> t) in
              case fromObject y m target 0 0 0 of
                None \<Rightarrow> []
              | Some testDt \<Rightarrow>
                  (let dow = weekday testDt mod 7;
                       candidate = (if dow = 6 then target - 1
                                    else if dow = 0 then target + 1 else target)
                   in [max 1 (min ldom candidate)]))
           else if length (vals (daysOfMonth p)) = 0 then
             (if length (vals (daysOfWeek p)) > 0 \<or> truthy (nthDay (dayOfWeekModifiers p))
                 \<or> dowLastDay (dayOfWeekModifiers p)
              then filter (\<lambda>dy. case fromObject y m dy 0 0 0 of
                                  None \<Rightarrow> False
                                | Some testDt \<Rightarrow> isDayOfWeekSatisfied p testDt) [1..ldom]
              else [1..ldom])
           else filter (\<lambda>d. if m = 2 \<and> d = 29
                            then (if daysInMonth y 2 = 29 then d \<le> ldom else False)
                            else d \<le> ldom)
                  (vals (daysOfMonth p))))"

definition isMatch :: "CronParser \<Rightarrow> DateTime option \<Rightarrow> bool" where
  "isMatch p dt =
     (case dt of
        None \<Rightarrow> False
      | Some d \<Rightarrow>
          (length (vals (years p)) = 0 \<or> year d \<in> set (vals (years p)))
          \<and> (length (vals (months p)) = 0 \<or> month d \<in> set (vals (months p)))
          \<and> day d \<in> set (getDayOfMonthSet p (year d) (month d))
          \<and> isDayOfWeekSatisfied p d
          \<and> (length (vals (hours p)) = 0 \<or> hour d \<in> set (vals (hours p)))
          \<and> (length (vals (minutes p)) = 0 \<or> minute d \<in> set (vals (minutes p)))
          \<and> (length (vals (seconds p)) = 0 \<or> second d \<in> set (vals (seconds p))))"

section \<open>The fire-time search\<close>

text \<open>\<^verbatim>\<open>this.years.values.length ? Math.max(...this.years.values) : 2099\<close>, and the minimum with 1970.\<close>

definition maxYearOf :: "CronParser \<Rightarrow> int" where
  "maxYearOf p = (case vals (years p) of [] \<Rightarrow> 2099 | y # ys \<Rightarrow> fold max ys y)"

definition minYearOf :: "CronParser \<Rightarrow> int" where
  "minYearOf p = (case vals (years p) of [] \<Rightarrow> 1970 | y # ys \<Rightarrow> fold min ys y)"

text \<open>The candidate lists of one loop iteration: the parsed list, or the full domain when it is empty.\<close>

definition nextYearValues :: "CronParser \<Rightarrow> int list" where
  "nextYearValues p = (if length (vals (years p)) > 0 then vals (years p) else [1970..maxYearOf p])"

definition prevYearValues :: "CronParser \<Rightarrow> int list" where
  "prevYearValues p = (if length (vals (years p)) > 0 then vals (years p) else [1970..2099])"

definition monthValues :: "CronParser \<Rightarrow> int list" where
  "monthValues p = (if length (vals (months p)) > 0 then vals (months p) else [1..12])"

definition hourValues :: "CronParser \<Rightarrow> int list" where
  "hourValues p = (if length (vals (hours p)) > 0 then vals (hours p) else [0..23])"

definition minuteValues :: "CronParser \<Rightarrow> int list" where
  "minuteValues p = (if length (vals (minutes p)) > 0 then vals (minutes p) else [0..59])"

definition secondValues :: "CronParser \<Rightarrow> int list" where
  "secondValues p = (if length (vals (seconds p)) > 0 then vals (seconds p) else [0..59])"

text \<open>
  \<^verbatim>\<open>changed ? vs[0] : this.getNextValue(vs, cur) ?? vs[0]\<close> and its mirror
  \<^verbatim>\<open>changed ? vs[vs.length - 1] : this.getPreviousValue(vs, cur) ?? vs[vs.length - 1]\<close>;
  \<open>None\<close> is \<^verbatim>\<open>undefined\<close>.
\<close>

definition pickNext :: "int list \<Rightarrow> bool \<Rightarrow> int \<Rightarrow> int option" where
  "pickNext vs changed cur = (if changed then nth0 vs else orElse (getNextValue vs cur) (nth0 vs))"

definition pickPrev :: "int list \<Rightarrow> bool \<Rightarrow> int \<Rightarrow> int option" where
  "pickPrev vs changed cur =
     (if changed then nthLast vs else orElse (getPreviousValue vs cur) (nthLast vs))"

text \<open>
  For the month and the day the source uses the picked value without a test for
  \<^verbatim>\<open>undefined\<close>.  Both lists are non-empty where it does (the month list by its
  definition, the day list after the \<^verbatim>\<open>daySet.length === 0\<close> test), so the pick
  is defined there.
\<close>

definition pickNextDefined :: "int list \<Rightarrow> bool \<Rightarrow> int \<Rightarrow> int" where
  "pickNextDefined vs changed cur = (case pickNext vs changed cur of Some v \<Rightarrow> v | None \<Rightarrow> hd vs)"

definition pickPrevDefined :: "int list \<Rightarrow> bool \<Rightarrow> int \<Rightarrow> int" where
  "pickPrevDefined vs changed cur = (case pickPrev vs changed cur of Some v \<Rightarrow> v | None \<Rightarrow> last vs)"

text \<open>
  What one iteration of the \<^verbatim>\<open>while\<close> loop does: \<^verbatim>\<open>return d\<close>,
  \<^verbatim>\<open>return null\<close>, or go round again with a new \<^verbatim>\<open>d\<close>.
\<close>

datatype stepResult = Found DateTime | NotFound | Again "DateTime option"

subsection \<open>Forward\<close>

text \<open>
  The carry blocks.  The source repeats them verbatim inside each
  \<^verbatim>\<open>=== undefined\<close> branch; each is written once here.  The month list
  is never empty, so \<^verbatim>\<open>monthValues[0]\<close> and
  \<^verbatim>\<open>monthValues[monthValues.length - 1]\<close> are its first and last element.
\<close>

definition advanceYear :: "CronParser \<Rightarrow> int \<Rightarrow> stepResult" where
  "advanceYear p nextYear =
     (case getNextValue (nextYearValues p) (nextYear + 1) of
        None \<Rightarrow> NotFound
      | Some nextYearVal \<Rightarrow>
          if nextYearVal > maxYearOf p then NotFound
          else Again (fromObject nextYearVal (hd (monthValues p)) 1 0 0 0))"

definition advanceDay :: "CronParser \<Rightarrow> int list \<Rightarrow> int \<Rightarrow> int \<Rightarrow> int \<Rightarrow> stepResult" where
  "advanceDay p daySet nextYear nextMonth nextDay =
     (case getNextValue daySet (nextDay + 1) of
        None \<Rightarrow> advanceYear p nextYear
      | Some nextDayVal \<Rightarrow> Again (fromObject nextYear nextMonth nextDayVal 0 0 0))"

definition advanceHour :: "CronParser \<Rightarrow> int list \<Rightarrow> int \<Rightarrow> int \<Rightarrow> int \<Rightarrow> int \<Rightarrow> stepResult" where
  "advanceHour p daySet nextYear nextMonth nextDay nextHour =
     (case getNextValue (hourValues p) (nextHour + 1) of
        None \<Rightarrow> advanceDay p daySet nextYear nextMonth nextDay
      | Some nextHourVal \<Rightarrow> Again (fromObject nextYear nextMonth nextDay nextHourVal 0 0))"

definition advanceMinute ::
  "CronParser \<Rightarrow> int list \<Rightarrow> int \<Rightarrow> int \<Rightarrow> int \<Rightarrow> int \<Rightarrow> int \<Rightarrow> stepResult" where
  "advanceMinute p daySet nextYear nextMonth nextDay nextHour nextMinute =
     (case getNextValue (minuteValues p) (nextMinute + 1) of
        None \<Rightarrow> advanceHour p daySet nextYear nextMonth nextDay nextHour
      | Some nextMinuteVal \<Rightarrow>
          Again (fromObject nextYear nextMonth nextDay nextHour nextMinuteVal 0))"

text \<open>
  The end of the loop body: the candidate is returned when \<^verbatim>\<open>isMatch\<close> accepts it,
  else the search goes on one second later (an invalid value stays invalid).
\<close>

definition checkNext :: "CronParser \<Rightarrow> DateTime option \<Rightarrow> stepResult" where
  "checkNext p cand =
     (case cand of
        None \<Rightarrow> Again None
      | Some c \<Rightarrow> if isMatch p (Some c) then Found c else Again (Some (plusSecond c)))"

definition nextBody :: "CronParser \<Rightarrow> DateTime \<Rightarrow> stepResult" where
  "nextBody p d =
     (case getNextValue (nextYearValues p) (year d) of
        None \<Rightarrow> NotFound
      | Some nextYear \<Rightarrow>
          (let yearChanged = (nextYear \<noteq> year d);
               nextMonth = pickNextDefined (monthValues p) yearChanged (month d);
               monthChanged = (nextMonth \<noteq> month d \<or> yearChanged);
               daySet = getDayOfMonthSet p nextYear nextMonth
           in if length daySet = 0 then advanceYear p nextYear
              else
                (let nextDay = pickNextDefined daySet monthChanged (day d);
                     dayChanged = (nextDay \<noteq> day d \<or> monthChanged)
                 in case pickNext (hourValues p) dayChanged (hour d) of
                      None \<Rightarrow> advanceDay p daySet nextYear nextMonth nextDay
                    | Some nextHour \<Rightarrow>
                        (let hourChanged = (nextHour \<noteq> hour d \<or> dayChanged) in
                         case pickNext (minuteValues p) hourChanged (minute d) of
                           None \<Rightarrow> advanceHour p daySet nextYear nextMonth nextDay nextHour
                         | Some nextMinute \<Rightarrow>
                             (let minuteChanged = (nextMinute \<noteq> minute d \<or> hourChanged) in
                              case pickNext (secondValues p) minuteChanged (second d + 1) of
                                None \<Rightarrow>
                                  advanceMinute p daySet nextYear nextMonth nextDay nextHour nextMinute
                              | Some nextSecond \<Rightarrow>
                                  checkNext p
                                    (fromObject nextYear nextMonth nextDay nextHour nextMinute
                                       nextSecond))))))"

text \<open>
  \<^verbatim>\<open>while (iter < maxIter && d.year <= maxYear) { iter++; ... }\<close> with
  \<^verbatim>\<open>maxIter = 10000\<close>.  The year of an invalid value is \<^verbatim>\<open>NaN\<close>, which fails
  the loop test.  The result is the value returned together with the final \<^verbatim>\<open>iter\<close>.
\<close>

function nextLoop :: "CronParser \<Rightarrow> nat \<Rightarrow> DateTime option \<Rightarrow> DateTime option \<times> nat" where
  "nextLoop p iter d =
     (case d of
        None \<Rightarrow> (None, iter)
      | Some dt \<Rightarrow>
          if iter < 10000 \<and> year dt \<le> maxYearOf p then
            (case nextBody p dt of
               Found r \<Rightarrow> (Some r, Suc iter)
             | NotFound \<Rightarrow> (None, Suc iter)
             | Again d' \<Rightarrow> nextLoop p (Suc iter) d')
          else (None, iter))"
  by pat_completeness auto
termination
  by (relation "measure (\<lambda>(p, iter, d). 10000 - iter)") auto

declare nextLoop.simps [simp del]

definition getNextFireTime :: "CronParser \<Rightarrow> DateTime \<Rightarrow> DateTime option" where
  "getNextFireTime p afterDt = fst (nextLoop p 0 (Some afterDt))"

subsection \<open>Backward\<close>

definition retreatYear :: "CronParser \<Rightarrow> int \<Rightarrow> stepResult" where
  "retreatYear p prevYear =
     (case getPreviousValue (prevYearValues p) (prevYear - 1) of
        None \<Rightarrow> NotFound
      | Some prevYearVal \<Rightarrow>
          if prevYearVal < minYearOf p then NotFound
          else (let prevMonth = last (monthValues p) in
                Again (fromObject prevYearVal prevMonth (daysInMonth prevYearVal prevMonth) 23 59 59)))"

definition retreatMonth :: "CronParser \<Rightarrow> int \<Rightarrow> int \<Rightarrow> stepResult" where
  "retreatMonth p prevYear prevMonth =
     (case getPreviousValue (monthValues p) (prevMonth - 1) of
        None \<Rightarrow> retreatYear p prevYear
      | Some prevMonthVal \<Rightarrow>
          Again (fromObject prevYear prevMonthVal (daysInMonth prevYear prevMonthVal) 23 59 59))"

definition retreatDay :: "CronParser \<Rightarrow> int list \<Rightarrow> int \<Rightarrow> int \<Rightarrow> int \<Rightarrow> stepResult" where
  "retreatDay p daySet prevYear prevMonth prevDay =
     (case getPreviousValue daySet (prevDay - 1) of
        None \<Rightarrow> retreatMonth p prevYear prevMonth
      | Some prevDayVal \<Rightarrow> Again (fromObject prevYear prevMonth prevDayVal 23 59 59))"

definition retreatHour :: "CronParser \<Rightarrow> int list \<Rightarrow> int \<Rightarrow> int \<Rightarrow> int \<Rightarrow> int \<Rightarrow> stepResult" where
  "retreatHour p daySet prevYear prevMonth prevDay prevHour =
     (case getPreviousValue (hourValues p) (prevHour - 1) of
        None \<Rightarrow> retreatDay p daySet prevYear prevMonth prevDay
      | Some prevHourVal \<Rightarrow> Again (fromObject prevYear prevMonth prevDay prevHourVal 59 59))"

definition retreatMinute ::
  "CronParser \<Rightarrow> int list \<Rightarrow> int \<Rightarrow> int \<Rightarrow> int \<Rightarrow> int \<Rightarrow> int \<Rightarrow> stepResult" where
  "retreatMinute p daySet prevYear prevMonth prevDay prevHour prevMinute =
     (case getPreviousValue (minuteValues p) (prevMinute - 1) of
        None \<Rightarrow> retreatHour p daySet prevYear prevMonth prevDay prevHour
      | Some prevMinuteVal \<Rightarrow>
          Again (fromObject prevYear prevMonth prevDay prevHour prevMinuteVal 59))"

definition checkPrev :: "CronParser \<Rightarrow> DateTime option \<Rightarrow> stepResult" where
  "checkPrev p cand =
     (case cand of
        None \<Rightarrow> Again None
      | Some c \<Rightarrow> if isMatch p (Some c) then Found c else Again (Some (minusSecond c)))"

definition prevBody :: "CronParser \<Rightarrow> DateTime \<Rightarrow> stepResult" where
  "prevBody p d =
     (case getPreviousValue (prevYearValues p) (year d) of
        None \<Rightarrow> NotFound
      | Some prevYear \<Rightarrow>
          (let yearChanged = (prevYear < year d);
               prevMonth = pickPrevDefined (monthValues p) yearChanged (month d);
               monthChanged = (prevMonth < month d \<or> yearChanged);
               daySet = getDayOfMonthSet p prevYear prevMonth
           in if length daySet = 0 then retreatYear p prevYear
              else
                (let prevDay = pickPrevDefined daySet monthChanged (day d);
                     dayChanged = (prevDay < day d \<or> monthChanged)
                 in case pickPrev (hourValues p) dayChanged (hour d) of
                      None \<Rightarrow> retreatDay p daySet prevYear prevMonth prevDay
                    | Some prevHour \<Rightarrow>
                        (let hourChanged = (prevHour < hour d \<or> dayChanged) in
                         case pickPrev (minuteValues p) hourChanged (minute d) of
                           None \<Rightarrow> retreatHour p daySet prevYear prevMonth prevDay prevHour
                         | Some prevMinute \<Rightarrow>
                             (let minuteChanged = (prevMinute < minute d \<or> hourChanged) in
                              case pickPrev (secondValues p) minuteChanged (second d) of
                                None \<Rightarrow>
                                  retreatMinute p daySet prevYear prevMonth prevDay prevHour prevMinute
                              | Some prevSecond \<Rightarrow>
                                  checkPrev p
                                    (fromObject prevYear prevMonth prevDay prevHour prevMinute
                                       prevSecond))))))"

text \<open>\<^verbatim>\<open>while (iter < maxIter && d.year >= minYear) { iter++; ... }\<close>\<close>

function prevLoop :: "CronParser \<Rightarrow> nat \<Rightarrow> DateTime option \<Rightarrow> DateTime option \<times> nat" where
  "prevLoop p iter d =
     (case d of
        None \<Rightarrow> (None, iter)
      | Some dt \<Rightarrow>
          if iter < 10000 \<and> year dt \<ge> minYearOf p then
            (case prevBody p dt of
               Found r \<Rightarrow> (Some r, Suc iter)
             | NotFound \<Rightarrow> (None, Suc iter)
             | Again d' \<Rightarrow> prevLoop p (Suc iter) d')
          else (None, iter))"
  by pat_completeness auto
termination
  by (relation "measure (\<lambda>(p, iter, d). 10000 - iter)") auto

declare prevLoop.simps [simp del]

definition getPreviousFireTime :: "CronParser \<Rightarrow> DateTime \<Rightarrow> DateTime option" where
  "getPreviousFireTime p beforeDt = fst (prevLoop p 0 (Some (minusSecond beforeDt)))"

subsection \<open>The public operations\<close>

text \<open>
  \<^verbatim>\<open>next(from?)\<close> and \<^verbatim>\<open>previous(from?)\<close>.  An omitted argument is
  \<^verbatim>\<open>DateTime.now()\<close>, the wall clock, here the first parameter.  The result is the
  epoch second of the fire time, or the error thrown when the search returns \<^verbatim>\<open>null\<close>.
\<close>

definition cron_next :: "DateTime \<Rightarrow> CronParser \<Rightarrow> DateTime option \<Rightarrow> error + int" where
  "cron_next now p frm =
     (let start = (case frm of Some f \<Rightarrow> f | None \<Rightarrow> now) in
      case getNextFireTime p start of
        None \<Rightarrow> Inl NoNextExecution
      | Some nextDt \<Rightarrow> Inr (toUnixInteger nextDt))"

definition cron_previous :: "DateTime \<Rightarrow> CronParser \<Rightarrow> DateTime option \<Rightarrow> error + int" where
  "cron_previous now p frm =
     (let start = (case frm of Some f \<Rightarrow> f | None \<Rightarrow> now) in
      case getPreviousFireTime p start of
        None \<Rightarrow> Inl NoPreviousExecution
      | Some prevDt \<Rightarrow> Inr (toUnixInteger prevDt))"

text \<open>
  The same construction with the wall-clock time of the call as an explicit argument.
  The class can read the clock (\<^verbatim>\<open>DateTime.now()\<close>); neither the constructor
  nor any method that \<^verbatim>\<open>parse\<close> calls does.
\<close>

definition constructorAt :: "DateTime \<Rightarrow> string \<Rightarrow> CronParser outcome" where
  "constructorAt now cronString = constructor cronString"

section \<open>Schedules and instants used as concrete inputs\<close>

text \<open>The reference instant of the test suite: 2025-09-28T12:00:00Z.\<close>

definition refInstant :: DateTime where
  "refInstant = \<lparr>year = 2025, month = 9, day = 28, hour = 12, minute = 0, second = 0, millisecond = 0\<rparr>"

definition plainField :: "int list \<Rightarrow> CronField" where
  "plainField vs = \<lparr>vals = vs, step = None\<rparr>"

definition atMidnight :: "int \<Rightarrow> int \<Rightarrow> int \<Rightarrow> DateTime" where
  "atMidnight y m d = \<lparr>year = y, month = m, day = d, hour = 0, minute = 0, second = 0, millisecond = 0\<rparr>"

text \<open>The object that \<^verbatim>\<open>new CronParser('0 0 0 29 FEB ?', 'UTC')\<close> builds.\<close>

definition feb29 :: CronParser where
  "feb29 = initialParser\<lparr>minutes := plainField [0], hours := plainField [0],
      daysOfMonth := plainField [29], months := plainField [2]\<rparr>"

text \<open>
  The object that \<^verbatim>\<open>new CronParser('0 0 0 30 2 ?', 'UTC')\<close> builds; its day set is
  empty in every February.
\<close>

definition feb30 :: CronParser where
  "feb30 = initialParser\<lparr>minutes := plainField [0], hours := plainField [0],
      daysOfMonth := plainField [30], months := plainField [2]\<rparr>"

text \<open>The last second of February, where the backward search puts its cursor after a year without match.\<close>

definition endOfFebruary :: "int \<Rightarrow> DateTime" where
  "endOfFebruary y = \<lparr>year = y, month = 2, day = daysInMonth y 2, hour = 23, minute = 59,
     second = 59, millisecond = 0\<rparr>"

definition noonOf :: "int \<Rightarrow> int \<Rightarrow> int \<Rightarrow> DateTime" where
  "noonOf y m d = \<lparr>year = y, month = m, day = d, hour = 12, minute = 0, second = 0, millisecond = 0\<rparr>"

text \<open>
  The objects that \<^verbatim>\<open>new CronParser('59 59 23 * 12 MON 2025', 'UTC')\<close> and
  \<^verbatim>\<open>new CronParser('0 0 0 * 1 MON 2025', 'UTC')\<close> build: the last second of the
  Mondays of December 2025, and the first second of the Mondays of January 2025.
\<close>

definition decMondays2025 :: CronParser where
  "decMondays2025 = initialParser\<lparr>seconds := plainField [59], minutes := plainField [59],
      hours := plainField [23], daysOfMonth := plainField [1..31], months := plainField [12],
      daysOfWeek := plainField [1], years := plainField [2025]\<rparr>"

definition janMondays2025 :: CronParser where
  "janMondays2025 = initialParser\<lparr>seconds := plainField [0], minutes := plainField [0],
      hours := plainField [0], daysOfMonth := plainField [1..31], months := plainField [1],
      daysOfWeek := plainField [1], years := plainField [2025]\<rparr>"

text \<open>The object that \<^verbatim>\<open>new CronParser('0 30 12 29 2 ?', 'UTC')\<close> builds.\<close>

definition feb29noon :: CronParser where
  "feb29noon = initialParser\<lparr>minutes := plainField [30], hours := plainField [12],
      daysOfMonth := plainField [29], months := plainField [2]\<rparr>"

lemma constructor_feb29: "constructor ''0 0 0 29 FEB ?'' = ok feb29"
  by code_simp

lemma next_feb29: "getNextFireTime feb29 refInstant = Some (atMidnight 2028 2 29)"
  by code_simp

lemma prev_feb29: "getPreviousFireTime feb29 refInstant = Some (atMidnight 2024 2 29)"
  by code_simp

section \<open>Value selection\<close>

lemma nth0_nonempty: "vs \<noteq> [] \<Longrightarrow> nth0 vs = Some (hd vs)"
  by (cases vs) (simp_all add: nth0_def)

lemma nthLast_nonempty: "vs \<noteq> [] \<Longrightarrow> nthLast vs = Some (last vs)"
  by (cases vs rule: rev_cases) (simp_all add: nthLast_def)

lemma find_first_sorted:
  assumes "find (\<lambda>x. v \<le> x) vs = Some x" and "sorted vs" and "y \<in> set vs" and "v \<le> (y::int)"
  shows "x \<le> y"
proof -
  from assms(1) obtain i where i: "i < length vs" "vs ! i = x" "\<forall>j<i. \<not> v \<le> vs ! j"
    by (auto simp: find_Some_iff)
  from assms(3) obtain k where k: "k < length vs" "vs ! k = y"
    by (auto simp: in_set_conv_nth)
  with i(3) assms(4) have "i \<le> k" by (metis not_le_imp_less)
  with assms(2) i(2) k show ?thesis by (auto simp: sorted_iff_nth_mono)
qed

lemma getNextValue_spec:
  assumes "vs \<noteq> []" and "sorted vs"
  shows "\<exists>x. getNextValue vs v = Some x \<and> x \<in> set vs \<and>
           (if \<exists>y\<in>set vs. v \<le> y then v \<le> x \<and> (\<forall>y\<in>set vs. v \<le> y \<longrightarrow> x \<le> y) else x = hd vs)"
proof (cases "find (\<lambda>x. v \<le> x) vs")
  case None
  then have "\<not> (\<exists>y\<in>set vs. v \<le> y)" by (auto simp: find_None_iff)
  with None assms(1) show ?thesis
    by (simp add: getNextValue_def orElse_def nth0_nonempty)
next
  case (Some x)
  then have "x \<in> set vs" "v \<le> x" by (auto simp: find_Some_iff)
  moreover have "\<forall>y\<in>set vs. v \<le> y \<longrightarrow> x \<le> y"
    using find_first_sorted[OF Some assms(2)] by blast
  ultimately show ?thesis using Some
    by (auto simp: getNextValue_def orElse_def)
qed

lemma getPreviousValue_spec:
  assumes "vs \<noteq> []" and "sorted vs"
  shows "\<exists>x. getPreviousValue vs v = Some x \<and> x \<in> set vs \<and>
           (if \<exists>y\<in>set vs. y \<le> v then x \<le> v \<and> (\<forall>y\<in>set vs. y \<le> v \<longrightarrow> y \<le> x) else x = last vs)"
proof (cases "find (\<lambda>x. x \<le> v) (rev vs)")
  case None
  then have "\<not> (\<exists>y\<in>set vs. y \<le> v)" by (auto simp: find_None_iff)
  with None assms(1) show ?thesis
    by (simp add: getPreviousValue_def orElse_def nthLast_nonempty)
next
  case (Some x)
  then obtain i where i: "i < length vs" "rev vs ! i = x" "x \<le> v" "\<forall>j<i. \<not> rev vs ! j \<le> v"
    by (auto simp: find_Some_iff)
  then have xin: "x \<in> set vs" by (metis length_rev nth_mem set_rev)
  have "\<forall>y\<in>set vs. y \<le> v \<longrightarrow> y \<le> x"
  proof (intro ballI impI)
    fix y assume y: "y \<in> set vs" "y \<le> v"
    then obtain k where k: "k < length vs" "rev vs ! k = y"
      by (metis in_set_conv_nth length_rev set_rev)
    with i(4) y(2) have "i \<le> k" by (metis not_le_imp_less)
    moreover have "sorted (rev (rev vs))" using assms(2) by simp
    ultimately show "y \<le> x" using i(1,2) k
      by (metis length_rev sorted_rev_iff_nth_mono)
  qed
  with xin i(3) Some show ?thesis
    by (auto simp: getPreviousValue_def orElse_def)
qed

lemma pickNext_defined: "vs \<noteq> [] \<Longrightarrow> pickNext vs c cur \<noteq> None"
  by (auto simp: pickNext_def orElse_def nth0_nonempty split: option.splits)

lemma pickPrev_defined: "vs \<noteq> [] \<Longrightarrow> pickPrev vs c cur \<noteq> None"
  by (auto simp: pickPrev_def orElse_def nthLast_nonempty split: option.splits)

lemma upto_nonempty: "i \<le> j \<Longrightarrow> [i..j] \<noteq> []"
  by (simp add: upto.simps)

lemma hourValues_nonempty: "hourValues p \<noteq> []"
  by (auto simp: hourValues_def upto_nonempty)

lemma minuteValues_nonempty: "minuteValues p \<noteq> []"
  by (auto simp: minuteValues_def upto_nonempty)

lemma secondValues_nonempty: "secondValues p \<noteq> []"
  by (auto simp: secondValues_def upto_nonempty)

lemma monthValues_nonempty: "monthValues p \<noteq> []"
  by (auto simp: monthValues_def upto_nonempty)

lemma getNextValue_upto: "lo \<le> v \<Longrightarrow> v \<le> hi \<Longrightarrow> getNextValue [lo..hi] v = Some v"
proof -
  assume a: "lo \<le> v" "v \<le> hi"
  then have ne: "[lo..hi] \<noteq> []" by (simp add: upto_nonempty)
  have vin: "v \<in> set [lo..hi]" using a by simp
  from getNextValue_spec[OF ne, of v] vin obtain x where
    x: "getNextValue [lo..hi] v = Some x" "v \<le> x" "\<forall>y\<in>set [lo..hi]. v \<le> y \<longrightarrow> x \<le> y"
    by (auto split: if_splits)
  from x(3) vin have "x \<le> v" by blast
  with x(1,2) show ?thesis by simp
qed

lemma getPreviousValue_upto: "lo \<le> v \<Longrightarrow> v \<le> hi \<Longrightarrow> getPreviousValue [lo..hi] v = Some v"
proof -
  assume a: "lo \<le> v" "v \<le> hi"
  then have ne: "[lo..hi] \<noteq> []" by (simp add: upto_nonempty)
  have vin: "v \<in> set [lo..hi]" using a by simp
  from getPreviousValue_spec[OF ne, of v] vin obtain x where
    x: "getPreviousValue [lo..hi] v = Some x" "x \<le> v" "\<forall>y\<in>set [lo..hi]. y \<le> v \<longrightarrow> y \<le> x"
    by (auto split: if_splits)
  from x(3) vin have "v \<le> x" by blast
  with x(1,2) show ?thesis by simp
qed

lemma pick_singleton:
  "pickNextDefined [v] c cur = v" "pickPrevDefined [v] c cur = v"
  "pickNext [v] c cur = Some v" "pickPrev [v] c cur = Some v"
  by (simp_all add: pickNextDefined_def pickPrevDefined_def pickNext_def pickPrev_def
      getNextValue_def getPreviousValue_def orElse_def nth0_def nthLast_def)

lemma fromObject_midnight:
  "1 \<le> m \<Longrightarrow> m \<le> 12 \<Longrightarrow> 1 \<le> d \<Longrightarrow> d \<le> daysInMonth y m \<Longrightarrow> fromObject y m d 0 0 0 = Some (atMidnight y m d)"
  by (simp add: fromObject_def atMidnight_def)

lemma find_in_set: "find P xs = Some x \<Longrightarrow> x \<in> set xs"
  by (auto simp: find_Some_iff)

lemma rev_head_in_set: "rev vs = x # xs \<Longrightarrow> x \<in> set vs"
  by (metis list.set_intros(1) set_rev)

lemma getNextValue_in_set: "getNextValue vs v = Some x \<Longrightarrow> x \<in> set vs"
  unfolding getNextValue_def orElse_def nth0_def
  by (auto split: option.splits list.splits dest: find_in_set)

lemma getPreviousValue_in_set: "getPreviousValue vs v = Some x \<Longrightarrow> x \<in> set vs"
  unfolding getPreviousValue_def orElse_def nthLast_def
  by (auto split: option.splits list.splits dest: find_in_set rev_head_in_set)

text \<open>
  Claim C10.  On a non-empty ascending list \<open>getNextValue\<close> returns the smallest
  element that is at least the probe, or the first element when there is none, and
  \<open>getPreviousValue\<close> the largest element that is at most the probe, or the last
  element; neither is ever \<^verbatim>\<open>undefined\<close>.  The hour, minute and second picked in
  an iteration of either search are therefore always defined: the branches of
  \<open>nextBody\<close> and \<open>prevBody\<close> guarded by an undefined pick are never taken.
\<close>

theorem C10_pick_never_undefined:
  "(vs \<noteq> [] \<and> sorted vs \<longrightarrow>
      (\<exists>x. getNextValue vs v = Some x \<and> x \<in> set vs \<and>
           (if \<exists>y\<in>set vs. v \<le> y then v \<le> x \<and> (\<forall>y\<in>set vs. v \<le> y \<longrightarrow> x \<le> y) else x = hd vs))
    \<and> (\<exists>x. getPreviousValue vs v = Some x \<and> x \<in> set vs \<and>
           (if \<exists>y\<in>set vs. y \<le> v then x \<le> v \<and> (\<forall>y\<in>set vs. y \<le> v \<longrightarrow> y \<le> x) else x = last vs)))
   \<and> (vs \<noteq> [] \<longrightarrow> pickNext vs c cur \<noteq> None \<and> pickPrev vs c cur \<noteq> None)
   \<and> pickNext (hourValues p) c cur \<noteq> None \<and> pickNext (minuteValues p) c cur \<noteq> None
   \<and> pickNext (secondValues p) c cur \<noteq> None
   \<and> pickPrev (hourValues p) c cur \<noteq> None \<and> pickPrev (minuteValues p) c cur \<noteq> None
   \<and> pickPrev (secondValues p) c cur \<noteq> None"
  using getNextValue_spec[of vs v] getPreviousValue_spec[of vs v]
    pickNext_defined pickPrev_defined hourValues_nonempty minuteValues_nonempty secondValues_nonempty
  by blast

theorem C10_pick_never_undefined_witness:
  "[0, 15, 30, 45] \<noteq> [] \<and> sorted [0, 15, 30, 45 :: int]
   \<and> getNextValue [0, 15, 30, 45] 20 = Some 30 \<and> getNextValue [0, 15, 30, 45] 50 = Some 0
   \<and> getPreviousValue [0, 15, 30, 45] 20 = Some 15 \<and> getPreviousValue [0, 15, 30, 45] (- 1) = Some 45
   \<and> pickNext [0, 15, 30, 45] False 50 \<noteq> None \<and> pickPrev [0, 15, 30, 45] False (- 1) \<noteq> None"
  using C10_pick_never_undefined[of "[0, 15, 30, 45]" 20 False 50 initialParser]
  by (simp add: getNextValue_def getPreviousValue_def orElse_def nth0_def nthLast_def pickNext_def pickPrev_def)

section \<open>Returned instants match the schedule\<close>

lemma advanceYear_not_Found: "advanceYear p y \<noteq> Found r"
  by (simp add: advanceYear_def split: option.splits)

lemma advanceDay_not_Found: "advanceDay p ds y m d \<noteq> Found r"
  by (simp add: advanceDay_def advanceYear_not_Found split: option.splits)

lemma advanceHour_not_Found: "advanceHour p ds y m d h \<noteq> Found r"
  by (simp add: advanceHour_def advanceDay_not_Found split: option.splits)

lemma advanceMinute_not_Found: "advanceMinute p ds y m d h mi \<noteq> Found r"
  by (simp add: advanceMinute_def advanceHour_not_Found split: option.splits)

lemma checkNext_Found: "checkNext p c = Found r \<Longrightarrow> isMatch p (Some r)"
  by (auto simp: checkNext_def split: option.splits if_splits)

lemma nextBody_Found: "nextBody p d = Found r \<Longrightarrow> isMatch p (Some r)"
  unfolding nextBody_def Let_def
  by (auto split: option.splits if_splits
      simp: advanceYear_not_Found advanceDay_not_Found advanceHour_not_Found advanceMinute_not_Found
      dest: checkNext_Found)

lemma nextLoop_None: "nextLoop p i None = (None, i)"
  by (subst nextLoop.simps) simp

lemma nextLoop_step:
  "nextLoop p i (Some dt) =
     (if i < 10000 \<and> year dt \<le> maxYearOf p then
        (case nextBody p dt of
           Found r \<Rightarrow> (Some r, Suc i)
         | NotFound \<Rightarrow> (None, Suc i)
         | Again d' \<Rightarrow> nextLoop p (Suc i) d')
      else (None, i))"
  by (subst nextLoop.simps) simp

lemma prevLoop_None: "prevLoop p i None = (None, i)"
  by (subst prevLoop.simps) simp

lemma prevLoop_step:
  "prevLoop p i (Some dt) =
     (if i < 10000 \<and> year dt \<ge> minYearOf p then
        (case prevBody p dt of
           Found r \<Rightarrow> (Some r, Suc i)
         | NotFound \<Rightarrow> (None, Suc i)
         | Again d' \<Rightarrow> prevLoop p (Suc i) d')
      else (None, i))"
  by (subst prevLoop.simps) simp

lemma nextLoop_Some: "fst (nextLoop p i d) = Some r \<Longrightarrow> isMatch p (Some r)"
proof (induction p i d rule: nextLoop.induct)
  case (1 p iter d)
  show ?case
  proof (cases d)
    case None
    with "1.prems" show ?thesis by (simp add: nextLoop_None nextLoop_step)
  next
    case (Some dt)
    show ?thesis
    proof (cases "iter < 10000 \<and> year dt \<le> maxYearOf p")
      case False
      with Some "1.prems" show ?thesis by (auto simp: nextLoop_None nextLoop_step)
    next
      case True
      show ?thesis
      proof (cases "nextBody p dt")
        case (Found x)
        with True Some "1.prems" have "x = r" by (simp add: nextLoop_None nextLoop_step)
        with Found show ?thesis using nextBody_Found by blast
      next
        case NotFound
        with True Some "1.prems" show ?thesis by (simp add: nextLoop_None nextLoop_step)
      next
        case (Again d')
        with True Some "1.prems" have "fst (nextLoop p (Suc iter) d') = Some r"
          by (simp add: nextLoop_None nextLoop_step)
        with "1.IH"[OF Some True Again] show ?thesis .
      qed
    qed
  qed
qed

lemma retreatYear_not_Found: "retreatYear p y \<noteq> Found r"
  by (simp add: retreatYear_def Let_def split: option.splits)

lemma retreatMonth_not_Found: "retreatMonth p y m \<noteq> Found r"
  by (simp add: retreatMonth_def retreatYear_not_Found split: option.splits)

lemma retreatDay_not_Found: "retreatDay p ds y m d \<noteq> Found r"
  by (simp add: retreatDay_def retreatMonth_not_Found split: option.splits)

lemma retreatHour_not_Found: "retreatHour p ds y m d h \<noteq> Found r"
  by (simp add: retreatHour_def retreatDay_not_Found split: option.splits)

lemma retreatMinute_not_Found: "retreatMinute p ds y m d h mi \<noteq> Found r"
  by (simp add: retreatMinute_def retreatHour_not_Found split: option.splits)

lemma checkPrev_Found: "checkPrev p c = Found r \<Longrightarrow> isMatch p (Some r)"
  by (auto simp: checkPrev_def split: option.splits if_splits)

lemma prevBody_Found: "prevBody p d = Found r \<Longrightarrow> isMatch p (Some r)"
  unfolding prevBody_def Let_def
  by (auto split: option.splits if_splits
      simp: retreatYear_not_Found retreatDay_not_Found retreatHour_not_Found retreatMinute_not_Found
      dest: checkPrev_Found)

lemma prevLoop_Some: "fst (prevLoop p i d) = Some r \<Longrightarrow> isMatch p (Some r)"
proof (induction p i d rule: prevLoop.induct)
  case (1 p iter d)
  show ?case
  proof (cases d)
    case None
    with "1.prems" show ?thesis by (simp add: prevLoop_None prevLoop_step)
  next
    case (Some dt)
    show ?thesis
    proof (cases "iter < 10000 \<and> year dt \<ge> minYearOf p")
      case False
      with Some "1.prems" show ?thesis by (auto simp: prevLoop_None prevLoop_step)
    next
      case True
      show ?thesis
      proof (cases "prevBody p dt")
        case (Found x)
        with True Some "1.prems" have "x = r" by (simp add: prevLoop_None prevLoop_step)
        with Found show ?thesis using prevBody_Found by blast
      next
        case NotFound
        with True Some "1.prems" show ?thesis by (simp add: prevLoop_None prevLoop_step)
      next
        case (Again d')
        with True Some "1.prems" have "fst (prevLoop p (Suc iter) d') = Some r"
          by (simp add: prevLoop_None prevLoop_step)
        with "1.IH"[OF Some True Again] show ?thesis .
      qed
    qed
  qed
qed

lemma isMatch_constraints:
  "isMatch p (Some d) \<Longrightarrow>
     (vals (years p) = [] \<or> year d \<in> set (vals (years p)))
     \<and> (vals (months p) = [] \<or> month d \<in> set (vals (months p)))
     \<and> day d \<in> set (getDayOfMonthSet p (year d) (month d))
     \<and> isDayOfWeekSatisfied p d
     \<and> (vals (hours p) = [] \<or> hour d \<in> set (vals (hours p)))
     \<and> (vals (minutes p) = [] \<or> minute d \<in> set (vals (minutes p)))
     \<and> (vals (seconds p) = [] \<or> second d \<in> set (vals (seconds p)))"
  by (simp add: isMatch_def)

text \<open>
  Claim C1.  An instant returned by the forward search satisfies \<open>isMatch\<close>, hence
  the year, month, effective day-of-month, day-of-week, hour, minute and second
  constraints of the schedule; the same holds for the backward search.
\<close>

theorem C1_fire_time_matches:
  "(getNextFireTime p a = Some d \<longrightarrow>
      isMatch p (Some d)
      \<and> (vals (years p) = [] \<or> year d \<in> set (vals (years p)))
      \<and> (vals (months p) = [] \<or> month d \<in> set (vals (months p)))
      \<and> day d \<in> set (getDayOfMonthSet p (year d) (month d))
      \<and> isDayOfWeekSatisfied p d
      \<and> (vals (hours p) = [] \<or> hour d \<in> set (vals (hours p)))
      \<and> (vals (minutes p) = [] \<or> minute d \<in> set (vals (minutes p)))
      \<and> (vals (seconds p) = [] \<or> second d \<in> set (vals (seconds p))))
   \<and> (getPreviousFireTime p b = Some e \<longrightarrow>
      isMatch p (Some e)
      \<and> (vals (years p) = [] \<or> year e \<in> set (vals (years p)))
      \<and> (vals (months p) = [] \<or> month e \<in> set (vals (months p)))
      \<and> day e \<in> set (getDayOfMonthSet p (year e) (month e))
      \<and> isDayOfWeekSatisfied p e
      \<and> (vals (hours p) = [] \<or> hour e \<in> set (vals (hours p)))
      \<and> (vals (minutes p) = [] \<or> minute e \<in> set (vals (minutes p)))
      \<and> (vals (seconds p) = [] \<or> second e \<in> set (vals (seconds p))))"
proof (intro conjI impI)
  assume "getNextFireTime p a = Some d"
  then have m: "isMatch p (Some d)"
    using nextLoop_Some[of p 0 "Some a" d] by (simp add: getNextFireTime_def)
  then show "isMatch p (Some d)" .
  from isMatch_constraints[OF m]
  show "vals (years p) = [] \<or> year d \<in> set (vals (years p))"
    "vals (months p) = [] \<or> month d \<in> set (vals (months p))"
    "day d \<in> set (getDayOfMonthSet p (year d) (month d))"
    "isDayOfWeekSatisfied p d"
    "vals (hours p) = [] \<or> hour d \<in> set (vals (hours p))"
    "vals (minutes p) = [] \<or> minute d \<in> set (vals (minutes p))"
    "vals (seconds p) = [] \<or> second d \<in> set (vals (seconds p))"
    by blast+
next
  assume "getPreviousFireTime p b = Some e"
  then have m: "isMatch p (Some e)"
    using prevLoop_Some[of p 0 "Some (minusSecond b)" e] by (simp add: getPreviousFireTime_def)
  then show "isMatch p (Some e)" .
  from isMatch_constraints[OF m]
  show "vals (years p) = [] \<or> year e \<in> set (vals (years p))"
    "vals (months p) = [] \<or> month e \<in> set (vals (months p))"
    "day e \<in> set (getDayOfMonthSet p (year e) (month e))"
    "isDayOfWeekSatisfied p e"
    "vals (hours p) = [] \<or> hour e \<in> set (vals (hours p))"
    "vals (minutes p) = [] \<or> minute e \<in> set (vals (minutes p))"
    "vals (seconds p) = [] \<or> second e \<in> set (vals (seconds p))"
    by blast+
qed

theorem C1_fire_time_matches_witness:
  "getNextFireTime feb29 refInstant = Some (atMidnight 2028 2 29)
   \<and> isMatch feb29 (Some (atMidnight 2028 2 29))
   \<and> getPreviousFireTime feb29 refInstant = Some (atMidnight 2024 2 29)
   \<and> isMatch feb29 (Some (atMidnight 2024 2 29))"
  using C1_fire_time_matches[of feb29 refInstant "atMidnight 2028 2 29" refInstant "atMidnight 2024 2 29"]
    next_feb29 prev_feb29
  by simp

section \<open>The search is bounded\<close>

lemma nextLoop_iter_bound: "i \<le> 10000 \<Longrightarrow> snd (nextLoop p i d) \<le> 10000"
proof (induction p i d rule: nextLoop.induct)
  case (1 p iter d)
  show ?case
  proof (cases d)
    case None
    with "1.prems" show ?thesis by (simp add: nextLoop_None nextLoop_step)
  next
    case (Some dt)
    show ?thesis
    proof (cases "iter < 10000 \<and> year dt \<le> maxYearOf p")
      case False
      with Some "1.prems" show ?thesis by (auto simp: nextLoop_None nextLoop_step)
    next
      case True
      then have s: "Suc iter \<le> 10000" by simp
      show ?thesis
      proof (cases "nextBody p dt")
        case (Found x)
        with True Some s show ?thesis by (simp add: nextLoop_None nextLoop_step)
      next
        case NotFound
        with True Some s show ?thesis by (simp add: nextLoop_None nextLoop_step)
      next
        case (Again d')
        with True Some "1.IH"[OF Some True Again s] show ?thesis
          by (simp add: nextLoop_None nextLoop_step)
      qed
    qed
  qed
qed

lemma prevLoop_iter_bound: "i \<le> 10000 \<Longrightarrow> snd (prevLoop p i d) \<le> 10000"
proof (induction p i d rule: prevLoop.induct)
  case (1 p iter d)
  show ?case
  proof (cases d)
    case None
    with "1.prems" show ?thesis by (simp add: prevLoop_None prevLoop_step)
  next
    case (Some dt)
    show ?thesis
    proof (cases "iter < 10000 \<and> year dt \<ge> minYearOf p")
      case False
      with Some "1.prems" show ?thesis by (auto simp: prevLoop_None prevLoop_step)
    next
      case True
      then have s: "Suc iter \<le> 10000" by simp
      show ?thesis
      proof (cases "prevBody p dt")
        case (Found x)
        with True Some s show ?thesis by (simp add: prevLoop_None prevLoop_step)
      next
        case NotFound
        with True Some s show ?thesis by (simp add: prevLoop_None prevLoop_step)
      next
        case (Again d')
        with True Some "1.IH"[OF Some True Again s] show ?thesis
          by (simp add: prevLoop_None prevLoop_step)
      qed
    qed
  qed
qed

lemma fold_max_Max: "fold max ys (y::int) = Max (set (y # ys))"
  by (simp only: Max.set_eq_fold)

lemma fold_min_Min: "fold min ys (y::int) = Min (set (y # ys))"
  by (simp only: Min.set_eq_fold)

lemma maxYearOf_eq: "maxYearOf p = (if vals (years p) = [] then 2099 else Max (set (vals (years p))))"
  by (cases "vals (years p)") (simp_all add: maxYearOf_def fold_max_Max del: set_simps)

lemma minYearOf_eq: "minYearOf p = (if vals (years p) = [] then 1970 else Min (set (vals (years p))))"
  by (cases "vals (years p)") (simp_all add: minYearOf_def fold_min_Min del: set_simps)

text \<open>The object that \<^verbatim>\<open>new CronParser('0 0 12 1 APR ? 2025', 'UTC')\<close> builds.\<close>

definition only2025 :: CronParser where
  "only2025 = initialParser\<lparr>minutes := plainField [0], hours := plainField [12],
      daysOfMonth := plainField [1], months := plainField [4], years := plainField [2025]\<rparr>"

lemma constructor_only2025: "constructor ''0 0 12 1 APR ? 2025'' = ok only2025"
  by code_simp

lemma constructor_decMondays2025: "constructor ''59 59 23 * 12 MON 2025'' = ok decMondays2025"
  by code_simp

lemma constructor_janMondays2025: "constructor ''0 0 0 * 1 MON 2025'' = ok janMondays2025"
  by code_simp

text \<open>The loop test: at the iteration cap, or with the cursor past the year limit, the loop is left without result.\<close>

lemma nextLoop_cap: "10000 \<le> i \<Longrightarrow> nextLoop p i d = (None, i)"
  by (cases d) (simp_all add: nextLoop_None nextLoop_step)

lemma prevLoop_cap: "10000 \<le> i \<Longrightarrow> prevLoop p i d = (None, i)"
  by (cases d) (simp_all add: prevLoop_None prevLoop_step)

lemma nextLoop_year_limit: "year dt > maxYearOf p \<Longrightarrow> nextLoop p i (Some dt) = (None, i)"
  by (simp add: nextLoop_step)

lemma prevLoop_year_limit: "year dt < minYearOf p \<Longrightarrow> prevLoop p i (Some dt) = (None, i)"
  by (simp add: prevLoop_step)

text \<open>A returned instant lies within the year limit.\<close>

lemma fromObject_year: "fromObject y m d h mi s = Some r \<Longrightarrow> year r = y"
  by (auto simp: fromObject_def split: if_splits)

lemma checkNext_year: "checkNext p (fromObject y m d h mi s) = Found r \<Longrightarrow> year r = y"
  by (auto simp: checkNext_def split: option.splits if_splits dest: fromObject_year)

lemma checkPrev_year: "checkPrev p (fromObject y m d h mi s) = Found r \<Longrightarrow> year r = y"
  by (auto simp: checkPrev_def split: option.splits if_splits dest: fromObject_year)

lemma nextBody_Found_year: "nextBody p d = Found r \<Longrightarrow> year r \<in> set (nextYearValues p)"
  unfolding nextBody_def Let_def
  by (auto split: option.splits if_splits
      simp: advanceYear_not_Found advanceDay_not_Found advanceHour_not_Found advanceMinute_not_Found
      dest!: checkNext_year getNextValue_in_set)

lemma prevBody_Found_year: "prevBody p d = Found r \<Longrightarrow> year r \<in> set (prevYearValues p)"
  unfolding prevBody_def Let_def
  by (auto split: option.splits if_splits
      simp: retreatYear_not_Found retreatDay_not_Found retreatHour_not_Found retreatMinute_not_Found
      dest!: checkPrev_year getPreviousValue_in_set)

lemma nextYearValues_le_max:
  assumes "y \<in> set (nextYearValues p)"
  shows "y \<le> maxYearOf p"
proof (cases "vals (years p) = []")
  case True
  with assms show ?thesis by (simp add: nextYearValues_def)
next
  case False
  with assms have "y \<in> set (vals (years p))" by (simp add: nextYearValues_def)
  then have "y \<le> Max (set (vals (years p)))" by (rule_tac Max_ge) simp_all
  with False show ?thesis by (simp add: maxYearOf_eq)
qed

lemma prevYearValues_ge_min:
  assumes "y \<in> set (prevYearValues p)"
  shows "minYearOf p \<le> y"
proof (cases "vals (years p) = []")
  case True
  with assms have "y \<in> set [1970..2099]"
    unfolding prevYearValues_def by (simp only: list.size if_False less_irrefl)
  then have "1970 \<le> y" by (simp only: set_upto atLeastAtMost_iff)
  with True show ?thesis by (simp add: minYearOf_def)
next
  case False
  with assms have "y \<in> set (vals (years p))" by (simp add: prevYearValues_def)
  then have "Min (set (vals (years p))) \<le> y" by (rule_tac Min_le) simp_all
  with False show ?thesis by (simp add: minYearOf_eq)
qed

lemma nextLoop_Some_year: "fst (nextLoop p i d) = Some r \<Longrightarrow> year r \<le> maxYearOf p"
proof (induction p i d rule: nextLoop.induct)
  case (1 p iter d)
  show ?case
  proof (cases d)
    case None
    with "1.prems" show ?thesis by (simp add: nextLoop_None)
  next
    case (Some dt)
    show ?thesis
    proof (cases "iter < 10000 \<and> year dt \<le> maxYearOf p")
      case False
      with Some "1.prems" show ?thesis by (auto simp: nextLoop_step)
    next
      case True
      show ?thesis
      proof (cases "nextBody p dt")
        case (Found x)
        with True Some "1.prems" have "x = r" by (simp add: nextLoop_step)
        with Found show ?thesis using nextBody_Found_year nextYearValues_le_max by blast
      next
        case NotFound
        with True Some "1.prems" show ?thesis by (simp add: nextLoop_step)
      next
        case (Again d')
        with True Some "1.prems" have "fst (nextLoop p (Suc iter) d') = Some r"
          by (simp add: nextLoop_step)
        with "1.IH"[OF Some True Again] show ?thesis .
      qed
    qed
  qed
qed

lemma prevLoop_Some_year: "fst (prevLoop p i d) = Some r \<Longrightarrow> minYearOf p \<le> year r"
proof (induction p i d rule: prevLoop.induct)
  case (1 p iter d)
  show ?case
  proof (cases d)
    case None
    with "1.prems" show ?thesis by (simp add: prevLoop_None)
  next
    case (Some dt)
    show ?thesis
    proof (cases "iter < 10000 \<and> year dt \<ge> minYearOf p")
      case False
      with Some "1.prems" show ?thesis by (auto simp: prevLoop_step)
    next
      case True
      show ?thesis
      proof (cases "prevBody p dt")
        case (Found x)
        with True Some "1.prems" have "x = r" by (simp add: prevLoop_step)
        with Found show ?thesis using prevBody_Found_year prevYearValues_ge_min by blast
      next
        case NotFound
        with True Some "1.prems" show ?thesis by (simp add: prevLoop_step)
      next
        case (Again d')
        with True Some "1.prems" have "fst (prevLoop p (Suc iter) d') = Some r"
          by (simp add: prevLoop_step)
        with "1.IH"[OF Some True Again] show ?thesis .
      qed
    qed
  qed
qed

text \<open>
  A search that the year limit ends after its first iteration.  The only candidate
  of \<^verbatim>\<open>'59 59 23 * 12 MON 2025'\<close> from 2025-12-31 (a Wednesday) is the last second
  of that day; it does not match, the cursor moves one second on into 2026, and the
  loop test fails.  Backward, the candidate of \<^verbatim>\<open>'0 0 0 * 1 MON 2025'\<close> from
  2025-01-01T12:00:00Z is the first second of that Wednesday, and the cursor moves
  into 2024.
\<close>

lemma nextBody_decMondays2025:
  "nextBody decMondays2025 (atMidnight 2025 12 31) = Again (Some (atMidnight 2026 1 1))"
  by code_simp

lemma prevBody_janMondays2025:
  "prevBody janMondays2025 (minusSecond (noonOf 2025 1 1))
     = Again (Some \<lparr>year = 2024, month = 12, day = 31, hour = 23, minute = 59, second = 59,
                     millisecond = 999\<rparr>)"
  by code_simp

lemma mondays2025_years:
  "maxYearOf decMondays2025 = 2025" "minYearOf janMondays2025 = 2025"
  "year (atMidnight 2025 12 31) = 2025" "year (minusSecond (noonOf 2025 1 1)) = 2025"
  by code_simp+

text \<open>
  A search that only the iteration cap ends.  The day set of \<^verbatim>\<open>'0 0 0 30 2 ?'\<close>
  is empty in every year, so each iteration moves the cursor one year on; after 2099
  \<open>getNextValue\<close> gives 1970 again (before 1970 \<open>getPreviousValue\<close> gives 2099), the
  cursor never passes the year limit, and the loop runs all 10000 iterations.
\<close>

lemma feb30_daySet: "getDayOfMonthSet feb30 y 2 = []"
  by (simp add: getDayOfMonthSet_def fromObject_def daysInMonth_def feb30_def plainField_def
      initialParser_def Let_def)

lemma feb30_years_empty: "vals (years feb30) = []"
  by (simp add: feb30_def plainField_def initialParser_def)

lemma feb30_lists:
  "maxYearOf feb30 = 2099" "minYearOf feb30 = 1970" "monthValues feb30 = [2]"
  by (simp_all add: maxYearOf_def minYearOf_def monthValues_def feb30_def plainField_def
      initialParser_def)

lemma feb30_next_year:
  assumes "1970 \<le> v" and "v \<le> 2099"
  shows "getNextValue (nextYearValues feb30) v = Some v"
proof -
  have "getNextValue [1970..maxYearOf feb30] v = Some v"
    by (rule getNextValue_upto) (use assms feb30_lists(1) in simp_all)
  moreover have "nextYearValues feb30 = [1970..maxYearOf feb30]"
    by (simp add: nextYearValues_def feb30_years_empty)
  ultimately show ?thesis by (simp only:)
qed

lemma feb30_prev_year:
  assumes "1970 \<le> v" and "v \<le> 2099"
  shows "getPreviousValue (prevYearValues feb30) v = Some v"
proof -
  have "getPreviousValue [1970..2099] v = Some v"
    by (rule getPreviousValue_upto) (use assms in simp_all)
  moreover have "prevYearValues feb30 = [1970..2099]"
    unfolding prevYearValues_def by (simp only: feb30_years_empty list.size if_False less_irrefl)
  ultimately show ?thesis by (simp only:)
qed

lemma feb30_year_wrap:
  "getNextValue (nextYearValues feb30) 2100 = Some 1970"
  "getPreviousValue (prevYearValues feb30) 1969 = Some 2099"
  by code_simp+

lemma nextBody_feb30:
  assumes "1970 \<le> year d" and "year d \<le> 2099"
  shows "nextBody feb30 d = Again (Some (atMidnight (if year d < 2099 then year d + 1 else 1970) 2 1))"
proof (cases "year d < 2099")
  case True
  with assms show ?thesis
    by (simp add: nextBody_def feb30_lists feb30_next_year pick_singleton feb30_daySet
        advanceYear_def fromObject_midnight daysInMonth_def)
next
  case False
  with assms have y: "year d = 2099" by simp
  show ?thesis
    by (simp add: nextBody_def y feb30_lists feb30_next_year feb30_year_wrap pick_singleton
        feb30_daySet advanceYear_def fromObject_midnight daysInMonth_def)
qed

lemma prevBody_feb30:
  assumes "1970 \<le> year d" and "year d \<le> 2099"
  shows "prevBody feb30 d = Again (Some (endOfFebruary (if 1970 < year d then year d - 1 else 2099)))"
proof (cases "1970 < year d")
  case True
  have f: "fromObject (year d - 1) 2 (daysInMonth (year d - 1) 2) 23 59 59
             = Some (endOfFebruary (year d - 1))"
    by (simp add: fromObject_def endOfFebruary_def daysInMonth_def)
  from True assms show ?thesis
    by (simp add: prevBody_def feb30_lists feb30_prev_year pick_singleton feb30_daySet
        retreatYear_def f)
next
  case False
  with assms have y: "year d = 1970" by simp
  have f: "fromObject 2099 2 (daysInMonth 2099 2) 23 59 59 = Some (endOfFebruary 2099)"
    by (simp add: fromObject_def endOfFebruary_def daysInMonth_def)
  show ?thesis
    by (simp add: prevBody_def y feb30_lists feb30_prev_year feb30_year_wrap pick_singleton
        feb30_daySet retreatYear_def f)
qed

lemma nextLoop_feb30_cap:
  assumes "1970 \<le> year d" and "year d \<le> 2099" and "i \<le> 10000"
  shows "nextLoop feb30 i (Some d) = (None, 10000)"
  using assms
proof (induction "10000 - i" arbitrary: i d)
  case 0
  then have "i = 10000" by simp
  then show ?case by (simp add: nextLoop_step)
next
  case (Suc n)
  then have lt: "i < 10000" by simp
  let ?d = "atMidnight (if year d < 2099 then year d + 1 else 1970) 2 1"
  have step: "nextBody feb30 d = Again (Some ?d)"
    using nextBody_feb30 Suc.prems by simp
  have "nextLoop feb30 (Suc i) (Some ?d) = (None, 10000)"
    by (rule Suc.hyps(1)) (use Suc lt in \<open>simp_all add: atMidnight_def\<close>)
  then show ?case using lt Suc.prems step by (simp add: nextLoop_step feb30_lists)
qed

lemma prevLoop_feb30_cap:
  assumes "1970 \<le> year d" and "year d \<le> 2099" and "i \<le> 10000"
  shows "prevLoop feb30 i (Some d) = (None, 10000)"
  using assms
proof (induction "10000 - i" arbitrary: i d)
  case 0
  then have "i = 10000" by simp
  then show ?case by (simp add: prevLoop_step)
next
  case (Suc n)
  then have lt: "i < 10000" by simp
  let ?d = "endOfFebruary (if 1970 < year d then year d - 1 else 2099)"
  have step: "prevBody feb30 d = Again (Some ?d)"
    using prevBody_feb30 Suc.prems by simp
  have "prevLoop feb30 (Suc i) (Some ?d) = (None, 10000)"
    by (rule Suc.hyps(1)) (use Suc lt in \<open>simp_all add: endOfFebruary_def\<close>)
  then show ?case using lt Suc.prems step by (simp add: prevLoop_step feb30_lists)
qed

text \<open>
  Claim C6.  Both searches stop and report failure.  (That they are total functions is
  the content of the termination proofs of \<open>nextLoop\<close> and \<open>prevLoop\<close>, whose measure
  is the distance of the loop counter from 10000.)  For every schedule \<open>p\<close>:
  the loop counter never exceeds 10000 at the end of a search; at whatever iteration
  the counter has reached 10000, the loop is left without result; at whatever
  iteration the year of the cursor has passed the year limit (above the maximum of the
  year list or 2099 forward, below the minimum or 1970 backward), or the cursor is
  invalid, the loop is left without result; an instant that a search does return lies
  within the year limit; and a search without result makes \<open>cron_next\<close> and
  \<open>cron_previous\<close> report the error, for a given reference and for the wall clock.
\<close>

theorem C6_search_bounded:
  "(\<forall>i d. i \<le> 10000 \<longrightarrow> snd (nextLoop p i d) \<le> 10000 \<and> snd (prevLoop p i d) \<le> 10000)
   \<and> snd (nextLoop p 0 (Some a)) \<le> 10000
   \<and> snd (prevLoop p 0 (Some (minusSecond b))) \<le> 10000
   \<and> (\<forall>i d. 10000 \<le> i \<longrightarrow> nextLoop p i d = (None, i) \<and> prevLoop p i d = (None, i))
   \<and> (\<forall>i dt. year dt > maxYearOf p \<longrightarrow> nextLoop p i (Some dt) = (None, i))
   \<and> (\<forall>i dt. year dt < minYearOf p \<longrightarrow> prevLoop p i (Some dt) = (None, i))
   \<and> (\<forall>i. nextLoop p i None = (None, i) \<and> prevLoop p i None = (None, i))
   \<and> (\<forall>r. getNextFireTime p a = Some r \<longrightarrow> year r \<le> maxYearOf p)
   \<and> (\<forall>r. getPreviousFireTime p b = Some r \<longrightarrow> minYearOf p \<le> year r)
   \<and> maxYearOf p = (if vals (years p) = [] then 2099 else Max (set (vals (years p))))
   \<and> minYearOf p = (if vals (years p) = [] then 1970 else Min (set (vals (years p))))
   \<and> (year a > maxYearOf p \<longrightarrow> getNextFireTime p a = None)
   \<and> (year (minusSecond b) < minYearOf p \<longrightarrow> getPreviousFireTime p b = None)
   \<and> (getNextFireTime p a = None \<longrightarrow> cron_next now p (Some a) = Inl NoNextExecution)
   \<and> (getPreviousFireTime p b = None \<longrightarrow> cron_previous now p (Some b) = Inl NoPreviousExecution)
   \<and> (getNextFireTime p now = None \<longrightarrow> cron_next now p None = Inl NoNextExecution)
   \<and> (getPreviousFireTime p now = None \<longrightarrow> cron_previous now p None = Inl NoPreviousExecution)"
proof -
  have count: "\<forall>i d. i \<le> 10000 \<longrightarrow> snd (nextLoop p i d) \<le> 10000 \<and> snd (prevLoop p i d) \<le> 10000"
    using nextLoop_iter_bound prevLoop_iter_bound by blast
  have cap: "\<forall>i d. 10000 \<le> i \<longrightarrow> nextLoop p i d = (None, i) \<and> prevLoop p i d = (None, i)"
    using nextLoop_cap prevLoop_cap by blast
  have lim: "\<forall>i dt. year dt > maxYearOf p \<longrightarrow> nextLoop p i (Some dt) = (None, i)"
    "\<forall>i dt. year dt < minYearOf p \<longrightarrow> prevLoop p i (Some dt) = (None, i)"
    using nextLoop_year_limit prevLoop_year_limit by blast+
  have inv: "\<forall>i. nextLoop p i None = (None, i) \<and> prevLoop p i None = (None, i)"
    by (simp add: nextLoop_None prevLoop_None)
  have res: "\<forall>r. getNextFireTime p a = Some r \<longrightarrow> year r \<le> maxYearOf p"
    "\<forall>r. getPreviousFireTime p b = Some r \<longrightarrow> minYearOf p \<le> year r"
    using nextLoop_Some_year prevLoop_Some_year
    by (simp_all add: getNextFireTime_def getPreviousFireTime_def)
  have first: "year a > maxYearOf p \<longrightarrow> getNextFireTime p a = None"
    "year (minusSecond b) < minYearOf p \<longrightarrow> getPreviousFireTime p b = None"
    by (simp_all add: getNextFireTime_def getPreviousFireTime_def nextLoop_year_limit
        prevLoop_year_limit)
  have err: "getNextFireTime p a = None \<longrightarrow> cron_next now p (Some a) = Inl NoNextExecution"
    "getPreviousFireTime p b = None \<longrightarrow> cron_previous now p (Some b) = Inl NoPreviousExecution"
    "getNextFireTime p now = None \<longrightarrow> cron_next now p None = Inl NoNextExecution"
    "getPreviousFireTime p now = None \<longrightarrow> cron_previous now p None = Inl NoPreviousExecution"
    by (simp_all add: cron_next_def cron_previous_def)
  from count cap lim inv res first err maxYearOf_eq[of p] minYearOf_eq[of p]
    nextLoop_iter_bound[of 0 p "Some a"] prevLoop_iter_bound[of 0 p "Some (minusSecond b)"]
  show ?thesis by (intro conjI) simp_all
qed

theorem C6_search_bounded_witness:
  "maxYearOf only2025 = 2025 \<and> minYearOf only2025 = 2025
   \<and> year (atMidnight 2026 1 1) > maxYearOf only2025
   \<and> getNextFireTime only2025 (atMidnight 2026 1 1) = None
   \<and> cron_next refInstant only2025 (Some (atMidnight 2026 1 1)) = Inl NoNextExecution
   \<and> year (minusSecond (atMidnight 2024 6 1)) < minYearOf only2025
   \<and> getPreviousFireTime only2025 (atMidnight 2024 6 1) = None
   \<and> cron_previous refInstant only2025 (Some (atMidnight 2024 6 1)) = Inl NoPreviousExecution
   \<and> constructor ''59 59 23 * 12 MON 2025'' = ok decMondays2025
   \<and> year (atMidnight 2025 12 31) \<le> maxYearOf decMondays2025
   \<and> nextBody decMondays2025 (atMidnight 2025 12 31) = Again (Some (atMidnight 2026 1 1))
   \<and> year (atMidnight 2026 1 1) > maxYearOf decMondays2025
   \<and> nextLoop decMondays2025 1 (Some (atMidnight 2026 1 1)) = (None, 1)
   \<and> nextLoop decMondays2025 0 (Some (atMidnight 2025 12 31)) = (None, 1)
   \<and> cron_next refInstant decMondays2025 (Some (atMidnight 2025 12 31)) = Inl NoNextExecution
   \<and> constructor ''0 0 0 * 1 MON 2025'' = ok janMondays2025
   \<and> prevLoop janMondays2025 0 (Some (minusSecond (noonOf 2025 1 1))) = (None, 1)
   \<and> cron_previous refInstant janMondays2025 (Some (noonOf 2025 1 1)) = Inl NoPreviousExecution
   \<and> constructor ''0 0 0 30 2 ?'' = ok feb30
   \<and> nextLoop feb30 0 (Some refInstant) = (None, 10000)
   \<and> nextLoop feb30 10000 (Some refInstant) = (None, 10000)
   \<and> cron_next refInstant feb30 (Some refInstant) = Inl NoNextExecution
   \<and> prevLoop feb30 0 (Some (minusSecond refInstant)) = (None, 10000)
   \<and> cron_previous refInstant feb30 (Some refInstant) = Inl NoPreviousExecution"
proof -
  have a: "maxYearOf only2025 = 2025" "minYearOf only2025 = 2025"
    "year (atMidnight 2026 1 1) > maxYearOf only2025"
    "year (minusSecond (atMidnight 2024 6 1)) < minYearOf only2025"
    by code_simp+
  have o: "getNextFireTime only2025 (atMidnight 2026 1 1) = None"
    "cron_next refInstant only2025 (Some (atMidnight 2026 1 1)) = Inl NoNextExecution"
    "getPreviousFireTime only2025 (atMidnight 2024 6 1) = None"
    "cron_previous refInstant only2025 (Some (atMidnight 2024 6 1)) = Inl NoPreviousExecution"
    using a C6_search_bounded[of only2025 "atMidnight 2026 1 1" "atMidnight 2024 6 1" refInstant]
    by simp_all
  have y: "year (atMidnight 2026 1 1) > maxYearOf decMondays2025"
    "year \<lparr>year = 2024, month = 12, day = 31, hour = 23, minute = 59, second = 59,
           millisecond = 999\<rparr> < minYearOf janMondays2025"
    by (simp_all add: mondays2025_years atMidnight_def)
  have d1: "nextLoop decMondays2025 1 (Some (atMidnight 2026 1 1)) = (None, 1)"
    using y(1) C6_search_bounded[of decMondays2025 "atMidnight 2025 12 31" "noonOf 2025 1 1" refInstant]
    by blast
  have d0: "nextLoop decMondays2025 0 (Some (atMidnight 2025 12 31)) = (None, 1)"
    using d1 by (simp add: nextLoop_step nextBody_decMondays2025 mondays2025_years)
  have d: "cron_next refInstant decMondays2025 (Some (atMidnight 2025 12 31)) = Inl NoNextExecution"
    using d0 C6_search_bounded[of decMondays2025 "atMidnight 2025 12 31" "noonOf 2025 1 1" refInstant]
    by (simp add: getNextFireTime_def)
  have j1: "prevLoop janMondays2025 1
              (Some \<lparr>year = 2024, month = 12, day = 31, hour = 23, minute = 59, second = 59,
                      millisecond = 999\<rparr>) = (None, 1)"
    using y(2) C6_search_bounded[of janMondays2025 "atMidnight 2025 12 31" "noonOf 2025 1 1" refInstant]
    by blast
  have j0: "prevLoop janMondays2025 0 (Some (minusSecond (noonOf 2025 1 1))) = (None, 1)"
    using j1 by (simp add: prevLoop_step prevBody_janMondays2025 mondays2025_years)
  have j: "cron_previous refInstant janMondays2025 (Some (noonOf 2025 1 1)) = Inl NoPreviousExecution"
    using j0 C6_search_bounded[of janMondays2025 "atMidnight 2025 12 31" "noonOf 2025 1 1" refInstant]
    by (simp add: getPreviousFireTime_def)
  have r: "1970 \<le> year refInstant" "year refInstant \<le> 2099"
    "1970 \<le> year (minusSecond refInstant)" "year (minusSecond refInstant) \<le> 2099"
    by code_simp+
  have f0: "nextLoop feb30 0 (Some refInstant) = (None, 10000)"
    "prevLoop feb30 0 (Some (minusSecond refInstant)) = (None, 10000)"
    using r by (simp_all add: nextLoop_feb30_cap prevLoop_feb30_cap)
  have f1: "nextLoop feb30 10000 (Some refInstant) = (None, 10000)"
    using C6_search_bounded[of feb30 refInstant refInstant refInstant] by simp
  have f: "cron_next refInstant feb30 (Some refInstant) = Inl NoNextExecution"
    "cron_previous refInstant feb30 (Some refInstant) = Inl NoPreviousExecution"
    using f0 C6_search_bounded[of feb30 refInstant refInstant refInstant]
    by (simp_all add: getNextFireTime_def getPreviousFireTime_def)
  have c: "constructor ''0 0 0 30 2 ?'' = ok feb30" by code_simp
  have yd: "year (atMidnight 2025 12 31) \<le> maxYearOf decMondays2025"
    by (simp add: mondays2025_years)
  from a o constructor_decMondays2025 yd nextBody_decMondays2025 y(1) d1 d0 d
    constructor_janMondays2025 j0 j c f0(1) f1 f(1) f0(2) f(2)
  show ?thesis by (intro conjI)
qed

section \<open>The year field\<close>

lemma thenO_ok: "thenO m f = ok y \<Longrightarrow> \<exists>x. m = ok x \<and> f x = ok y"
  by (auto simp: thenO_def ok_def split: option.splits sum.splits)

lemma withField_ok: "withField flds i f = ok y \<Longrightarrow> \<exists>s. f s = ok y"
  by (auto simp: withField_def throw_def ok_def split: option.splits)

lemma parseDayOfMonth_years: "parseDayOfMonth f p = ok p' \<Longrightarrow> years p' = years p"
  unfolding parseDayOfMonth_def Let_def
  by (auto simp: ok_def throw_def split: if_splits option.splits dest!: thenO_ok[unfolded ok_def])

lemma parseMonth_years: "parseMonth f p = ok p' \<Longrightarrow> years p' = years p"
  unfolding parseMonth_def
  by (auto simp: ok_def dest!: thenO_ok[unfolded ok_def])

lemma parseDayOfWeek_years: "parseDayOfWeek f p = ok p' \<Longrightarrow> years p' = years p"
  unfolding parseDayOfWeek_def Let_def
  by (auto simp: ok_def throw_def split: if_splits option.splits dest!: thenO_ok[unfolded ok_def])

lemma parse_years:
  assumes "parse s p = ok p'" and "length (splitSpaces [] (trim s)) \<noteq> 7"
  shows "years p' = years p"
proof -
  let ?flds = "splitSpaces [] (trim s)"
  let ?idx = "if length ?flds > 5 then 1 else (0::nat)"
  from assms(1) have len: "\<not> (length ?flds < 5 \<or> length ?flds > 7)"
    and nc: "\<not> (notWildcard (fieldAt ?flds 3) \<and> notWildcard (fieldAt ?flds 5))"
    by (auto simp: parse_def Let_def throw_def ok_def split: if_splits)
  with assms have
    "thenO (if length ?flds > 5 then withField ?flds 0 (\<lambda>f. parseField f 0 59)
            else ok \<lparr>vals = [0], step = None\<rparr>)
       (\<lambda>sec. thenO (withField ?flds ?idx (\<lambda>f. parseField f 0 59))
       (\<lambda>mi. thenO (withField ?flds (?idx + 1) (\<lambda>f. parseField f 0 23))
       (\<lambda>hr. thenO (withField ?flds (?idx + 2)
                       (\<lambda>f. parseDayOfMonth f (p\<lparr>seconds := sec, minutes := mi, hours := hr\<rparr>)))
       (\<lambda>p1. thenO (withField ?flds (?idx + 3) (\<lambda>f. parseMonth f p1))
       (\<lambda>p2. thenO (withField ?flds (?idx + 4) (\<lambda>f. parseDayOfWeek f p2))
       (\<lambda>p3. ok p3)))))) = ok p'"
    by (simp add: parse_def Let_def)
  then obtain sec mi hr p1 p2 where
    a: "withField ?flds (?idx + 2)
          (\<lambda>f. parseDayOfMonth f (p\<lparr>seconds := sec, minutes := mi, hours := hr\<rparr>)) = ok p1"
    and b: "withField ?flds (?idx + 3) (\<lambda>f. parseMonth f p1) = ok p2"
    and c: "withField ?flds (?idx + 4) (\<lambda>f. parseDayOfWeek f p2) = ok p'"
    by (fastforce dest!: thenO_ok simp: ok_def)
  from a have "years p1 = years p"
    by (auto dest!: withField_ok parseDayOfMonth_years)
  moreover from b have "years p2 = years p1"
    by (auto dest!: withField_ok parseMonth_years)
  moreover from c have "years p' = years p2"
    by (auto dest!: withField_ok parseDayOfWeek_years)
  ultimately show ?thesis by simp
qed

text \<open>
  Claim C9.  When the expression has five or six fields, construction leaves the year
  list as initialised: empty, which every search reads as the whole range 1970 to 2099.
  Construction is a function of the expression text alone: the source of
  \<^verbatim>\<open>parse\<close> makes no call to \<^verbatim>\<open>DateTime.now()\<close>, which only the omitted
  argument of \<^verbatim>\<open>next\<close> and \<^verbatim>\<open>previous\<close> reads.  Two constructions from one
  expression at different wall-clock times therefore give the same object.
\<close>

theorem C9_absent_year_unconstrained:
  assumes "constructor s = ok p" and "length (splitSpaces [] (trim s)) \<noteq> 7"
  shows "years p = \<lparr>vals = [], step = None\<rparr>
         \<and> nextYearValues p = [1970..2099] \<and> prevYearValues p = [1970..2099]
         \<and> maxYearOf p = 2099 \<and> minYearOf p = 1970
         \<and> constructorAt now1 s = ok p \<and> constructorAt now2 s = ok p"
proof -
  from parse_years[OF assms(1)[unfolded constructor_def] assms(2)]
  have y: "years p = \<lparr>vals = [], step = None\<rparr>" by (simp add: initialParser_def)
  with assms(1) show ?thesis
    by (simp add: nextYearValues_def prevYearValues_def maxYearOf_def minYearOf_def
        constructorAt_def)
qed

theorem C9_absent_year_unconstrained_witness:
  "constructor ''0 0 0 29 FEB ?'' = ok feb29
   \<and> length (splitSpaces [] (trim ''0 0 0 29 FEB ?'')) = 6
   \<and> years feb29 = \<lparr>vals = [], step = None\<rparr>
   \<and> constructorAt refInstant ''0 0 0 29 FEB ?'' = ok feb29
   \<and> constructorAt (atMidnight 2031 1 1) ''0 0 0 29 FEB ?'' = ok feb29
   \<and> constructor ''0 * * * *'' \<noteq> None
   \<and> length (splitSpaces [] (trim ''0 * * * *'')) = 5"
proof -
  have l: "length (splitSpaces [] (trim ''0 0 0 29 FEB ?'')) = 6"
    "constructor ''0 * * * *'' \<noteq> None"
    "length (splitSpaces [] (trim ''0 * * * *'')) = 5"
    by code_simp+
  then have "length (splitSpaces [] (trim ''0 0 0 29 FEB ?'')) \<noteq> 7" by simp
  from C9_absent_year_unconstrained[OF constructor_feb29 this,
      of refInstant "atMidnight 2031 1 1"] l constructor_feb29
  show ?thesis by simp
qed

section \<open>The day-of-month and day-of-week conflict\<close>

text \<open>
  With six or seven fields the guard at the head of \<^verbatim>\<open>parse\<close> reads the
  day-of-month field (index 3) and the day-of-week field (index 5), and rejects the
  expression when neither is a wildcard.
\<close>

theorem conflict_six_seven_fields:
  assumes "flds = splitSpaces [] (trim s)" and "length flds = 6 \<or> length flds = 7"
    and "flds ! 3 \<noteq> ''?''" "flds ! 3 \<noteq> ''*''" "flds ! 5 \<noteq> ''?''" "flds ! 5 \<noteq> ''*''"
  shows "constructor s = throw DayFieldsConflict"
  using assms by (auto simp: constructor_def parse_def Let_def notWildcard_def fieldAt_def)

theorem conflict_six_seven_fields_witness:
  "splitSpaces [] (trim ''0 0 0 1 * 1,2'') = [''0'', ''0'', ''0'', ''1'', ''*'', ''1,2'']
   \<and> constructor ''0 0 0 1 * 1,2'' = throw DayFieldsConflict"
proof -
  have f: "splitSpaces [] (trim ''0 0 0 1 * 1,2'') = [''0'', ''0'', ''0'', ''1'', ''*'', ''1,2'']"
    by code_simp
  with conflict_six_seven_fields[of "[''0'', ''0'', ''0'', ''1'', ''*'', ''1,2'']" "''0 0 0 1 * 1,2''"]
  show ?thesis by simp
qed

definition dom1dow1 :: CronParser where
  "dom1dow1 = initialParser\<lparr>minutes := plainField [0], hours := plainField [0],
      daysOfMonth := plainField [1], months := plainField [1..12], daysOfWeek := plainField [1]\<rparr>"

text \<open>
  Claim C3.  The guard reads indices 3 and 5 whatever the number of fields.  In a
  five-field expression the day-of-month is field 2 and the day-of-week field 4, so
  \<^verbatim>\<open>'0 0 1 * 1'\<close> (day-of-month 1 and day-of-week 1, no modifier) is constructed
  without error, while \<^verbatim>\<open>'0 0 1 1 *'\<close> (day-of-week \<^verbatim>\<open>*\<close>) is rejected as a
  conflict.  The six-field expression \<^verbatim>\<open>'0 0 0 1 * 1,2'\<close> is rejected.
\<close>

theorem C3_five_field_conflict_accepted:
  "constructor ''0 0 1 * 1'' = ok dom1dow1
   \<and> vals (daysOfMonth dom1dow1) = [1] \<and> vals (daysOfWeek dom1dow1) = [1]
   \<and> dayOfMonthModifiers dom1dow1 = dayOfMonthModifiers initialParser
   \<and> dayOfWeekModifiers dom1dow1 = dayOfWeekModifiers initialParser
   \<and> constructor ''0 0 1 1 *'' = throw DayFieldsConflict
   \<and> constructor ''0 0 0 1 * 1,2'' = throw DayFieldsConflict"
  by code_simp

section \<open>Day and month plausibility\<close>

definition april31 :: CronParser where
  "april31 = initialParser\<lparr>minutes := plainField [0], hours := plainField [0],
      daysOfMonth := plainField [31], months := plainField [4]\<rparr>"

text \<open>
  Claim C4.  \<^verbatim>\<open>parse\<close> calls \<^verbatim>\<open>parseDayOfMonth\<close> before
  \<^verbatim>\<open>parseMonth\<close>, so the month list is still empty when the day-against-month
  check runs and the check is skipped: \<^verbatim>\<open>'0 0 0 31 4 ?'\<close> and
  \<^verbatim>\<open>'0 0 0 30 2 ?'\<close> are constructed without error.  On an object whose month
  list is already set, the same method throws the error that names the day and the
  month (and lets 29 February through).
\<close>

theorem C4_impossible_dates_accepted:
  "constructor ''0 0 0 31 4 ?'' = ok april31
   \<and> constructor ''0 0 0 30 2 ?'' = ok feb30
   \<and> constructor ''0 0 0 31 FEB ?'' \<noteq> throw (InvalidDate 31 (Some ''February''))
   \<and> parseDayOfMonth ''31'' (initialParser\<lparr>months := plainField [4]\<rparr>)
        = throw (InvalidDate 31 (Some ''April''))
   \<and> parseDayOfMonth ''30'' (initialParser\<lparr>months := plainField [2]\<rparr>)
        = throw (InvalidDate 30 (Some ''February''))
   \<and> parseDayOfMonth ''29'' (initialParser\<lparr>months := plainField [2]\<rparr>)
        = ok (initialParser\<lparr>months := plainField [2], daysOfMonth := plainField [29]\<rparr>)"
  by code_simp

section \<open>Steps\<close>

lemma stepLoop_negative_step_aux:
  assumes "stepLoop i e s acc = Some y"
  shows "\<not> (\<exists>k sv. i = Num k \<and> s = Num sv \<and> k \<le> e \<and> sv < 0)"
proof (rule stepLoop.raw_induct
    [where P = "\<lambda>i e s acc y. \<not> (\<exists>k sv. i = Num k \<and> s = Num sv \<and> k \<le> e \<and> sv < 0)", OF _ assms])
  fix f :: "number \<Rightarrow> int \<Rightarrow> number \<Rightarrow> int list \<Rightarrow> int list option"
  fix i e s acc y
  assume IH: "\<And>i e s acc y. f i e s acc = Some y \<Longrightarrow>
                 \<not> (\<exists>k sv. i = Num k \<and> s = Num sv \<and> k \<le> e \<and> sv < 0)"
  assume body: "(case i of
                   Num k \<Rightarrow> if k \<le> e then f (numAdd i s) e s (acc @ [k]) else Some acc
                 | NaN \<Rightarrow> Some acc) = Some y"
  show "\<not> (\<exists>k sv. i = Num k \<and> s = Num sv \<and> k \<le> e \<and> sv < 0)"
  proof
    assume "\<exists>k sv. i = Num k \<and> s = Num sv \<and> k \<le> e \<and> sv < 0"
    then obtain k sv where h: "i = Num k" "s = Num sv" "k \<le> e" "sv < 0" by blast
    with body have "f (Num (k + sv)) e (Num sv) (acc @ [k]) = Some y"
      by (simp add: numAdd_def)
    from IH[OF this] h show False by auto
  qed
qed

lemma stepLoop_negative_step: "k \<le> e \<Longrightarrow> sv < 0 \<Longrightarrow> stepLoop (Num k) e (Num sv) acc = None"
  using stepLoop_negative_step_aux[of "Num k" e "Num sv" acc]
  by (cases "stepLoop (Num k) e (Num sv) acc") auto

lemma splitOn_slash: "splitOn (CHR ''/'') ''0-59/-1'' = [''0-59'', ''-1'']"
  by code_simp

lemma parseInt_minus1: "parseIntU (nth0 [''-1'']) = Num (- 1)"
  by code_simp

lemma parseRange_0_59: "parseRange ''0-59'' 0 59 = ok (0, 59)"
  by code_simp

lemma parseField_negative_step: "parseField ''0-59/-1'' 0 59 = None"
  by (subst parseField.simps)
     (simp add: splitOn_slash parseInt_minus1 parseRange_0_59 thenO_def ok_def thenLoop_def
        stepLoop_negative_step)

lemma fields_negative_step:
  "splitSpaces [] (trim ''0 0-59/-1 * * * ?'') = [''0'', ''0-59/-1'', ''*'', ''*'', ''*'', ''?'']"
  by code_simp

lemma parseField_0: "parseField ''0'' 0 59 = ok (plainField [0])"
  by code_simp

lemma constructor_negative_step: "constructor ''0 0-59/-1 * * * ?'' = None"
  by (simp add: constructor_def parse_def fields_negative_step notWildcard_def fieldAt_def
      withField_def parseField_0 parseField_negative_step thenO_def ok_def)

lemma stepLoop_positive_step:
  "0 < sv \<Longrightarrow> \<exists>vs. stepLoop (Num k) e (Num sv) acc = Some vs"
proof (induction "nat (e - k + 1)" arbitrary: k acc rule: less_induct)
  case less
  show ?case
  proof (cases "k \<le> e")
    case False
    then show ?thesis by (subst stepLoop.simps) simp
  next
    case True
    with less.prems have "nat (e - (k + sv) + 1) < nat (e - k + 1)" by simp
    from less.hyps[OF this less.prems, of "acc @ [k]"] True show ?thesis
      by (subst stepLoop.simps) (simp add: numAdd_def)
  qed
qed

text \<open>
  Claim C7.  A zero step is rejected with the step error.  A negative step passes the
  \<^verbatim>\<open>step === 0\<close> test, and the loop that collects the values then never ends:
  neither \<open>parseField\<close> nor \<open>constructor\<close> returns or throws.
\<close>

theorem C7_negative_step_not_rejected:
  "parseField ''*/0'' 0 59 = throw (InvalidStep ''*/0'')
   \<and> constructor ''0 */0 * * * ?'' = throw (InvalidStep ''*/0'')
   \<and> parseField ''0-59/-1'' 0 59 = None
   \<and> constructor ''0 0-59/-1 * * * ?'' = None"
proof -
  have "parseField ''*/0'' 0 59 = throw (InvalidStep ''*/0'')"
    "constructor ''0 */0 * * * ?'' = throw (InvalidStep ''*/0'')"
    by code_simp+
  then show ?thesis using parseField_negative_step constructor_negative_step by simp
qed

section \<open>29 February\<close>

lemma feb29_daySet: "getDayOfMonthSet feb29 y 2 = (if isLeapYear y then [29] else [])"
  by (simp add: getDayOfMonthSet_def fromObject_def daysInMonth_def feb29_def plainField_def
      initialParser_def Let_def)

lemma feb29_match_leap:
  assumes "isMatch feb29 (Some d)"
  shows "isLeapYear (year d) \<and> month d = 2 \<and> day d = 29"
proof -
  from assms have m: "month d = 2"
    by (simp add: isMatch_def feb29_def plainField_def initialParser_def)
  from assms have "day d \<in> set (getDayOfMonthSet feb29 (year d) (month d))"
    by (simp add: isMatch_def)
  with m show ?thesis by (simp add: feb29_daySet split: if_splits)
qed

text \<open>
  The search for \<^verbatim>\<open>'0 0 0 29 FEB ?'\<close> from a cursor in a year that is not a leap
  year: each iteration finds the day set of February empty and moves the cursor one
  year on (forward to 1 February, backward to the last second of February), until
  the year is a leap year.
\<close>

lemma feb29_years_empty: "vals (years feb29) = []"
  by (simp add: feb29_def plainField_def initialParser_def)

lemma feb29_lists:
  "maxYearOf feb29 = 2099" "minYearOf feb29 = 1970" "monthValues feb29 = [2]"
  "hourValues feb29 = [0]" "minuteValues feb29 = [0]" "secondValues feb29 = [0]"
  by (simp_all add: maxYearOf_def minYearOf_def
      monthValues_def hourValues_def minuteValues_def secondValues_def feb29_def plainField_def
      initialParser_def)

lemma feb29_next_year:
  assumes "1970 \<le> v" and "v \<le> 2099"
  shows "getNextValue (nextYearValues feb29) v = Some v"
proof -
  have "getNextValue [1970..maxYearOf feb29] v = Some v"
    by (rule getNextValue_upto) (use assms feb29_lists(1) in simp_all)
  moreover have "nextYearValues feb29 = [1970..maxYearOf feb29]"
    by (simp add: nextYearValues_def feb29_years_empty)
  ultimately show ?thesis by (simp only:)
qed

lemma feb29_prev_year:
  assumes "1970 \<le> v" and "v \<le> 2099"
  shows "getPreviousValue (prevYearValues feb29) v = Some v"
proof -
  have "getPreviousValue [1970..2099] v = Some v"
    by (rule getPreviousValue_upto) (use assms in simp_all)
  moreover have "prevYearValues feb29 = [1970..2099]"
    unfolding prevYearValues_def by (simp only: feb29_years_empty list.size if_False less_irrefl)
  ultimately show ?thesis by (simp only:)
qed

lemma feb29_isMatch: "isLeapYear y \<Longrightarrow> isMatch feb29 (Some (atMidnight y 2 29))"
  by (simp add: isMatch_def feb29_daySet atMidnight_def isDayOfWeekSatisfied_def truthy_def)
     (simp add: feb29_def plainField_def initialParser_def)

lemma nextBody_feb29_nonleap:
  assumes "\<not> isLeapYear (year d)" and "1970 \<le> year d" and "year d \<le> 2098"
  shows "nextBody feb29 d = Again (Some (atMidnight (year d + 1) 2 1))"
  using assms
  by (simp add: nextBody_def feb29_lists feb29_next_year pick_singleton feb29_daySet
      advanceYear_def fromObject_midnight daysInMonth_def)

lemma nextBody_feb29_leap:
  assumes "isLeapYear y" and "1970 \<le> y" and "y \<le> 2099"
  shows "nextBody feb29 (atMidnight y 2 1) = Found (atMidnight y 2 29)"
proof -
  have f: "fromObject y 2 29 0 0 0 = Some (atMidnight y 2 29)"
    using assms(1) by (simp add: fromObject_midnight daysInMonth_def)
  have y: "year (atMidnight y 2 1) = y" "month (atMidnight y 2 1) = 2" "day (atMidnight y 2 1) = 1"
    by (simp_all add: atMidnight_def)
  show ?thesis
    using assms
    by (simp add: nextBody_def y feb29_lists feb29_next_year pick_singleton feb29_daySet
        f checkNext_def feb29_isMatch)
qed

lemma nextLoop_feb29_skip:
  assumes "\<forall>x. y \<le> x \<and> x < z \<longrightarrow> \<not> isLeapYear x" and "isLeapYear z"
    and "1970 \<le> y" and "y \<le> z" and "z \<le> 2099" and "i + nat (z - y) < 10000"
  shows "fst (nextLoop feb29 i (Some (atMidnight y 2 1))) = Some (atMidnight z 2 29)"
  using assms
proof (induction "nat (z - y)" arbitrary: y i)
  case 0
  then have "y = z" by simp
  moreover have "year (atMidnight z 2 1) = z" by (simp add: atMidnight_def)
  ultimately show ?case
    using 0 by (simp add: nextLoop_step feb29_lists nextBody_feb29_leap)
next
  case (Suc n)
  have yr: "year (atMidnight y 2 1) = y" by (simp add: atMidnight_def)
  from Suc.hyps(2) have lt: "y < z" by simp
  with Suc.prems(1) have nl: "\<not> isLeapYear y" by simp
  from Suc.prems lt have b: "1970 \<le> y" "y \<le> 2098" "i < 10000" by simp_all
  have step: "nextBody feb29 (atMidnight y 2 1) = Again (Some (atMidnight (y + 1) 2 1))"
    using nextBody_feb29_nonleap[of "atMidnight y 2 1"] nl b yr by simp
  have n: "n = nat (z - (y + 1))" using Suc.hyps(2) by simp
  have "fst (nextLoop feb29 (Suc i) (Some (atMidnight (y + 1) 2 1))) = Some (atMidnight z 2 29)"
    using Suc.prems lt Suc.hyps(2) by (intro Suc.hyps(1)[OF n]) simp_all
  then show ?case
    using b yr step by (simp add: nextLoop_step feb29_lists)
qed

lemma leap_mod4: "1901 \<le> y \<Longrightarrow> y \<le> 2099 \<Longrightarrow> isLeapYear y \<longleftrightarrow> y mod 4 = 0"
  unfolding isLeapYear_def by presburger

lemma next_feb29_from_nonleap:
  assumes "\<not> isLeapYear (year a)" and "1970 \<le> year a" and "year a \<le> 2095"
  shows "getNextFireTime feb29 a = Some (atMidnight (year a + (4 - year a mod 4)) 2 29)"
proof -
  let ?y = "year a"
  let ?z = "?y + (4 - ?y mod 4)"
  have m: "?y mod 4 \<noteq> 0" using assms leap_mod4[of ?y] by simp
  have first: "nextLoop feb29 0 (Some a) = nextLoop feb29 (Suc 0) (Some (atMidnight (?y + 1) 2 1))"
    using assms nextBody_feb29_nonleap[of a] by (simp add: nextLoop_step feb29_lists)
  have zb: "?y + 1 \<le> ?z" "?z \<le> ?y + 3" "?z mod 4 = 0" using m by presburger+
  have "fst (nextLoop feb29 (Suc 0) (Some (atMidnight (?y + 1) 2 1))) = Some (atMidnight ?z 2 29)"
  proof (rule nextLoop_feb29_skip)
    show "\<forall>x. ?y + 1 \<le> x \<and> x < ?z \<longrightarrow> \<not> isLeapYear x"
    proof (intro allI impI)
      fix x assume x: "?y + 1 \<le> x \<and> x < ?z"
      with assms zb have "1901 \<le> x" "x \<le> 2099" by simp_all
      moreover from x m have "x mod 4 \<noteq> 0" by presburger
      ultimately show "\<not> isLeapYear x" using leap_mod4 by simp
    qed
    show "isLeapYear ?z" using leap_mod4[of ?z] assms zb by simp
    show "Suc 0 + nat (?z - (?y + 1)) < 10000" using zb by simp
  qed (use assms zb in simp_all)
  with first show ?thesis by (simp add: getNextFireTime_def)
qed

lemma prevBody_feb29_nonleap:
  assumes "\<not> isLeapYear (year d)" and "1971 \<le> year d" and "year d \<le> 2099"
  shows "prevBody feb29 d = Again (Some (endOfFebruary (year d - 1)))"
proof -
  have f: "fromObject (year d - 1) 2 (daysInMonth (year d - 1) 2) 23 59 59
             = Some (endOfFebruary (year d - 1))"
    by (simp add: fromObject_def endOfFebruary_def daysInMonth_def)
  show ?thesis
    using assms
    by (simp add: prevBody_def feb29_lists feb29_prev_year pick_singleton feb29_daySet
        retreatYear_def f)
qed

lemma prevBody_feb29_leap:
  assumes "isLeapYear y" and "1970 \<le> y" and "y \<le> 2099"
  shows "prevBody feb29 (endOfFebruary y) = Found (atMidnight y 2 29)"
proof -
  have f: "fromObject y 2 29 0 0 0 = Some (atMidnight y 2 29)"
    using assms(1) by (simp add: fromObject_midnight daysInMonth_def)
  have y: "year (endOfFebruary y) = y" "month (endOfFebruary y) = 2"
    "day (endOfFebruary y) = 29" "hour (endOfFebruary y) = 23"
    using assms(1) by (simp_all add: endOfFebruary_def daysInMonth_def)
  show ?thesis
    using assms
    by (simp add: prevBody_def y feb29_lists feb29_prev_year pick_singleton feb29_daySet
        f checkPrev_def feb29_isMatch)
qed

lemma prevLoop_feb29_skip:
  assumes "\<forall>x. z < x \<and> x \<le> y \<longrightarrow> \<not> isLeapYear x" and "isLeapYear z"
    and "1970 \<le> z" and "z \<le> y" and "y \<le> 2099" and "i + nat (y - z) < 10000"
  shows "fst (prevLoop feb29 i (Some (endOfFebruary y))) = Some (atMidnight z 2 29)"
  using assms
proof (induction "nat (y - z)" arbitrary: y i)
  case 0
  then have "y = z" by simp
  moreover have "year (endOfFebruary z) = z" by (simp add: endOfFebruary_def)
  ultimately show ?case
    using 0 by (simp add: prevLoop_step feb29_lists prevBody_feb29_leap)
next
  case (Suc n)
  have yr: "year (endOfFebruary y) = y" by (simp add: endOfFebruary_def)
  from Suc.hyps(2) have lt: "z < y" by simp
  with Suc.prems(1) have nl: "\<not> isLeapYear y" by simp
  from Suc.prems lt have b: "1971 \<le> y" "y \<le> 2099" "i < 10000" by simp_all
  have step: "prevBody feb29 (endOfFebruary y) = Again (Some (endOfFebruary (y - 1)))"
    using prevBody_feb29_nonleap[of "endOfFebruary y"] nl b yr by simp
  have n: "n = nat (y - 1 - z)" using Suc.hyps(2) by simp
  have "fst (prevLoop feb29 (Suc i) (Some (endOfFebruary (y - 1)))) = Some (atMidnight z 2 29)"
    using Suc.prems lt Suc.hyps(2) by (intro Suc.hyps(1)[OF n]) simp_all
  then show ?case
    using b yr step by (simp add: prevLoop_step feb29_lists)
qed

lemma prev_feb29_from_nonleap:
  assumes "\<not> isLeapYear (year (minusSecond b))" and "1973 \<le> year (minusSecond b)"
    and "year (minusSecond b) \<le> 2099"
  shows "getPreviousFireTime feb29 b
           = Some (atMidnight (year (minusSecond b) - year (minusSecond b) mod 4) 2 29)"
proof -
  let ?y = "year (minusSecond b)"
  let ?z = "?y - ?y mod 4"
  have m: "?y mod 4 \<noteq> 0" using assms leap_mod4[of ?y] by simp
  have first: "prevLoop feb29 0 (Some (minusSecond b))
                 = prevLoop feb29 (Suc 0) (Some (endOfFebruary (?y - 1)))"
    using assms prevBody_feb29_nonleap[of "minusSecond b"] by (simp add: prevLoop_step feb29_lists)
  have zb: "?z \<le> ?y - 1" "?y - 3 \<le> ?z" "?z mod 4 = 0" using m by presburger+
  have "fst (prevLoop feb29 (Suc 0) (Some (endOfFebruary (?y - 1)))) = Some (atMidnight ?z 2 29)"
  proof (rule prevLoop_feb29_skip)
    show "\<forall>x. ?z < x \<and> x \<le> ?y - 1 \<longrightarrow> \<not> isLeapYear x"
    proof (intro allI impI)
      fix x assume x: "?z < x \<and> x \<le> ?y - 1"
      with assms zb have "1901 \<le> x" "x \<le> 2099" by simp_all
      moreover from x m have "x mod 4 \<noteq> 0" by presburger
      ultimately show "\<not> isLeapYear x" using leap_mod4 by simp
    qed
    show "isLeapYear ?z" using leap_mod4[of ?z] assms zb by simp
    show "Suc 0 + nat (?y - 1 - ?z) < 10000" using zb by simp
  qed (use assms zb in simp_all)
  with first show ?thesis by (simp add: getPreviousFireTime_def)
qed

lemma next_feb29_nearest_leap:
  assumes "\<not> isLeapYear (year a)" and "1970 \<le> year a" and "year a \<le> 2095"
  shows "\<exists>z. year a < z \<and> isLeapYear z \<and> (\<forall>x. year a \<le> x \<and> x < z \<longrightarrow> \<not> isLeapYear x)
             \<and> getNextFireTime feb29 a = Some (atMidnight z 2 29)"
proof -
  let ?y = "year a"
  let ?z = "?y + (4 - ?y mod 4)"
  have m: "?y mod 4 \<noteq> 0" using assms leap_mod4[of ?y] by simp
  have zb: "?y < ?z" "?z \<le> ?y + 3" "?z mod 4 = 0" using m by presburger+
  have "isLeapYear ?z" using leap_mod4[of ?z] assms zb by simp
  moreover have "\<forall>x. ?y \<le> x \<and> x < ?z \<longrightarrow> \<not> isLeapYear x"
  proof (intro allI impI)
    fix x assume x: "?y \<le> x \<and> x < ?z"
    with assms zb have "1901 \<le> x" "x \<le> 2099" by simp_all
    moreover from x m have "x mod 4 \<noteq> 0" by presburger
    ultimately show "\<not> isLeapYear x" using leap_mod4 by simp
  qed
  ultimately show ?thesis using zb(1) next_feb29_from_nonleap[OF assms] by blast
qed

lemma prev_feb29_nearest_leap:
  assumes "\<not> isLeapYear (year (minusSecond b))" and "1973 \<le> year (minusSecond b)"
    and "year (minusSecond b) \<le> 2099"
  shows "\<exists>z. z < year (minusSecond b) \<and> isLeapYear z
             \<and> (\<forall>x. z < x \<and> x \<le> year (minusSecond b) \<longrightarrow> \<not> isLeapYear x)
             \<and> getPreviousFireTime feb29 b = Some (atMidnight z 2 29)"
proof -
  let ?y = "year (minusSecond b)"
  let ?z = "?y - ?y mod 4"
  have m: "?y mod 4 \<noteq> 0" using assms leap_mod4[of ?y] by simp
  have zb: "?z < ?y" "?y - 3 \<le> ?z" "?z mod 4 = 0" using m by presburger+
  have "isLeapYear ?z" using leap_mod4[of ?z] assms zb by simp
  moreover have "\<forall>x. ?z < x \<and> x \<le> ?y \<longrightarrow> \<not> isLeapYear x"
  proof (intro allI impI)
    fix x assume x: "?z < x \<and> x \<le> ?y"
    with assms zb have "1901 \<le> x" "x \<le> 2099" by simp_all
    moreover from x m have "x mod 4 \<noteq> 0" by presburger
    ultimately show "\<not> isLeapYear x" using leap_mod4 by simp
  qed
  ultimately show ?thesis using zb(1) prev_feb29_from_nonleap[OF assms] by blast
qed

text \<open>
  Any schedule whose day-of-month list is the single day 29, without day-of-month
  modifier, and whose month list is the single month 2.
\<close>

lemma day29_february_daySet:
  assumes "vals (daysOfMonth p) = [29]"
    and "\<not> lastDay (dayOfMonthModifiers p)" and "\<not> lastWeekday (dayOfMonthModifiers p)"
    and "\<not> nearestWeekday (dayOfMonthModifiers p)"
  shows "getDayOfMonthSet p y 2 = (if isLeapYear y then [29] else [])"
  using assms by (simp add: getDayOfMonthSet_def fromObject_def daysInMonth_def Let_def)

lemma day29_february_match:
  assumes "vals (daysOfMonth p) = [29]" and "vals (months p) = [2]"
    and "\<not> lastDay (dayOfMonthModifiers p)" and "\<not> lastWeekday (dayOfMonthModifiers p)"
    and "\<not> nearestWeekday (dayOfMonthModifiers p)"
    and "isMatch p (Some d)"
  shows "isLeapYear (year d) \<and> month d = 2 \<and> day d = 29"
proof -
  from assms(2,6) have m: "month d = 2" by (simp add: isMatch_def)
  from assms(6) have "day d \<in> set (getDayOfMonthSet p (year d) (month d))"
    by (simp add: isMatch_def)
  with m show ?thesis
    by (simp add: day29_february_daySet[OF assms(1,3,4,5)] split: if_splits)
qed

lemma constructor_feb29noon: "constructor ''0 30 12 29 2 ?'' = ok feb29noon"
  by code_simp

lemma next_feb29noon:
  "getNextFireTime feb29noon refInstant
     = Some \<lparr>year = 2028, month = 2, day = 29, hour = 12, minute = 30, second = 0, millisecond = 0\<rparr>"
  by code_simp

lemma prev_feb29noon:
  "getPreviousFireTime feb29noon refInstant
     = Some \<lparr>year = 2024, month = 2, day = 29, hour = 12, minute = 30, second = 0, millisecond = 0\<rparr>"
  by code_simp

text \<open>
  For every schedule that constrains the day-of-month to 29 and the month to February
  (whatever its other fields), the effective day set of February is day 29 in a leap
  year and empty in any other year, and every instant that the forward or the backward
  search returns is a 29 February of a leap year.
\<close>

theorem day29_february_only_in_leap_years:
  assumes "vals (daysOfMonth p) = [29]" and "vals (months p) = [2]"
    and "\<not> lastDay (dayOfMonthModifiers p)" and "\<not> lastWeekday (dayOfMonthModifiers p)"
    and "\<not> nearestWeekday (dayOfMonthModifiers p)"
  shows "getDayOfMonthSet p y 2 = (if isLeapYear y then [29] else [])
         \<and> (getNextFireTime p a = Some d \<longrightarrow> isLeapYear (year d) \<and> month d = 2 \<and> day d = 29)
         \<and> (getPreviousFireTime p b = Some e \<longrightarrow> isLeapYear (year e) \<and> month e = 2 \<and> day e = 29)"
proof (intro conjI impI)
  show "getDayOfMonthSet p y 2 = (if isLeapYear y then [29] else [])"
    by (rule day29_february_daySet[OF assms(1,3,4,5)])
next
  assume "getNextFireTime p a = Some d"
  then have "isMatch p (Some d)"
    using nextLoop_Some[of p 0 "Some a" d] by (simp add: getNextFireTime_def)
  from day29_february_match[OF assms this]
  show "isLeapYear (year d)" "month d = 2" "day d = 29" by simp_all
next
  assume "getPreviousFireTime p b = Some e"
  then have "isMatch p (Some e)"
    using prevLoop_Some[of p 0 "Some (minusSecond b)" e] by (simp add: getPreviousFireTime_def)
  from day29_february_match[OF assms this]
  show "isLeapYear (year e)" "month e = 2" "day e = 29" by simp_all
qed

theorem day29_february_only_in_leap_years_witness:
  "constructor ''0 30 12 29 2 ?'' = ok feb29noon
   \<and> vals (daysOfMonth feb29noon) = [29] \<and> vals (months feb29noon) = [2]
   \<and> \<not> lastDay (dayOfMonthModifiers feb29noon) \<and> \<not> lastWeekday (dayOfMonthModifiers feb29noon)
   \<and> \<not> nearestWeekday (dayOfMonthModifiers feb29noon)
   \<and> getDayOfMonthSet feb29noon 2025 2 = [] \<and> getDayOfMonthSet feb29noon 2028 2 = [29]
   \<and> getNextFireTime feb29noon refInstant
        = Some \<lparr>year = 2028, month = 2, day = 29, hour = 12, minute = 30, second = 0, millisecond = 0\<rparr>
   \<and> isLeapYear 2028
   \<and> getPreviousFireTime feb29noon refInstant
        = Some \<lparr>year = 2024, month = 2, day = 29, hour = 12, minute = 30, second = 0, millisecond = 0\<rparr>
   \<and> isLeapYear 2024"
proof -
  have h: "vals (daysOfMonth feb29noon) = [29]" "vals (months feb29noon) = [2]"
    "\<not> lastDay (dayOfMonthModifiers feb29noon)" "\<not> lastWeekday (dayOfMonthModifiers feb29noon)"
    "\<not> nearestWeekday (dayOfMonthModifiers feb29noon)"
    by (simp_all add: feb29noon_def plainField_def initialParser_def)
  have l: "\<not> isLeapYear 2025" by code_simp
  from day29_february_only_in_leap_years[OF h, of 2025] l
  have s1: "getDayOfMonthSet feb29noon 2025 2 = []" by simp
  from day29_february_only_in_leap_years[OF h, of 2028 refInstant
      "\<lparr>year = 2028, month = 2, day = 29, hour = 12, minute = 30, second = 0, millisecond = 0\<rparr>"
      refInstant
      "\<lparr>year = 2024, month = 2, day = 29, hour = 12, minute = 30, second = 0, millisecond = 0\<rparr>"]
    next_feb29noon prev_feb29noon
  have s2: "isLeapYear 2028" "isLeapYear 2024" "getDayOfMonthSet feb29noon 2028 2 = [29]"
    by simp_all
  from constructor_feb29noon h s1 s2(3) next_feb29noon s2(1) prev_feb29noon s2(2)
  show ?thesis by (intro conjI)
qed

text \<open>
  For the schedule \<^verbatim>\<open>'0 0 0 29 FEB ?'\<close> and a reference in a year that is not a leap
  year, the forward search returns 29 February of the first leap year after it
  (reference years 1970 to 2095), and the backward search 29 February of the last leap
  year before it (years 1973 to 2099 of the instant one second before the reference).
\<close>

theorem feb29_skips_to_nearest_leap_year:
  "(\<forall>a. \<not> isLeapYear (year a) \<and> 1970 \<le> year a \<and> year a \<le> 2095 \<longrightarrow>
         (\<exists>z. year a < z \<and> isLeapYear z \<and> (\<forall>x. year a \<le> x \<and> x < z \<longrightarrow> \<not> isLeapYear x)
              \<and> getNextFireTime feb29 a = Some (atMidnight z 2 29)))
   \<and> (\<forall>b. \<not> isLeapYear (year (minusSecond b)) \<and> 1973 \<le> year (minusSecond b)
           \<and> year (minusSecond b) \<le> 2099 \<longrightarrow>
         (\<exists>z. z < year (minusSecond b) \<and> isLeapYear z
              \<and> (\<forall>x. z < x \<and> x \<le> year (minusSecond b) \<longrightarrow> \<not> isLeapYear x)
              \<and> getPreviousFireTime feb29 b = Some (atMidnight z 2 29)))"
  using next_feb29_nearest_leap prev_feb29_nearest_leap by blast

theorem feb29_skips_to_nearest_leap_year_witness:
  "\<not> isLeapYear (year refInstant) \<and> 1970 \<le> year refInstant \<and> year refInstant \<le> 2095
   \<and> \<not> isLeapYear (year (minusSecond refInstant)) \<and> 1973 \<le> year (minusSecond refInstant)
   \<and> year (minusSecond refInstant) \<le> 2099
   \<and> (\<exists>z. year refInstant < z \<and> isLeapYear z
          \<and> getNextFireTime feb29 refInstant = Some (atMidnight z 2 29))
   \<and> (\<exists>z. z < year (minusSecond refInstant) \<and> isLeapYear z
          \<and> getPreviousFireTime feb29 refInstant = Some (atMidnight z 2 29))
   \<and> getNextFireTime feb29 refInstant = Some (atMidnight 2028 2 29)
   \<and> getPreviousFireTime feb29 refInstant = Some (atMidnight 2024 2 29)"
proof -
  have c: "\<not> isLeapYear (year refInstant)" "1970 \<le> year refInstant" "year refInstant \<le> 2095"
    "\<not> isLeapYear (year (minusSecond refInstant))" "1973 \<le> year (minusSecond refInstant)"
    "year (minusSecond refInstant) \<le> 2099"
    by code_simp+
  from feb29_skips_to_nearest_leap_year c
  have n: "\<exists>z. year refInstant < z \<and> isLeapYear z
              \<and> getNextFireTime feb29 refInstant = Some (atMidnight z 2 29)"
    and p: "\<exists>z. z < year (minusSecond refInstant) \<and> isLeapYear z
              \<and> getPreviousFireTime feb29 refInstant = Some (atMidnight z 2 29)"
    by blast+
  from c n p next_feb29 prev_feb29 show ?thesis by (intro conjI)
qed

text \<open>Searches of \<^verbatim>\<open>'0 0 0 29 FEB ?'\<close> from other references.\<close>

lemma feb29_other_references:
  "getNextFireTime feb29 (atMidnight 2097 6 1) = Some (atMidnight 1972 2 29)"
  "getNextFireTime feb29 (atMidnight 2028 6 1) = Some (atMidnight 2028 2 29)"
  "getPreviousFireTime feb29 (atMidnight 2028 1 15) = Some (atMidnight 2028 2 29)"
  "getPreviousFireTime feb29 (atMidnight 1971 6 1) = Some (atMidnight 2096 2 29)"
  by code_simp+

text \<open>
  Claim C5.  The search for \<^verbatim>\<open>'0 0 0 29 FEB ?'\<close> does not always go to the nearest
  leap year in its direction.  From 2025-09-28T12:00:00Z \<open>cron_next\<close> and
  \<open>cron_previous\<close> return the epochs 1835395200 (2028-02-29) and 1709164800
  (2024-02-29).  But from 2028-06-01 (epoch 1843430400) \<open>cron_next\<close> returns
  1835395200, the 29 February that has just passed, where the nearest leap year
  forward is 2032 (epoch 1961625600); from 2097-06-01 (epoch 4020883200), after which
  no leap year is left up to 2099, it returns 68169600, which is 1972-02-29.  Backward
  from 2028-01-15 (epoch 1831507200) \<open>cron_previous\<close> returns 1835395200, the coming
  29 February, where the nearest leap year backward is 2024; from 1971-06-01 (epoch
  44582400) it returns 3981312000, which is 2096-02-29.
\<close>

theorem C5_feb29_search_leaves_direction:
  "constructor ''0 0 0 29 FEB ?'' = ok feb29
   \<and> cron_next now feb29 (Some refInstant) = Inr 1835395200
   \<and> cron_previous now feb29 (Some refInstant) = Inr 1709164800
   \<and> toUnixInteger (atMidnight 2028 6 1) = 1843430400
   \<and> cron_next now feb29 (Some (atMidnight 2028 6 1)) = Inr 1835395200
   \<and> toUnixInteger (atMidnight 2028 2 29) = 1835395200
   \<and> toUnixInteger (atMidnight 2032 2 29) = 1961625600
   \<and> toUnixInteger (atMidnight 2097 6 1) = 4020883200
   \<and> cron_next now feb29 (Some (atMidnight 2097 6 1)) = Inr 68169600
   \<and> toUnixInteger (atMidnight 1972 2 29) = 68169600
   \<and> toUnixInteger (atMidnight 2028 1 15) = 1831507200
   \<and> cron_previous now feb29 (Some (atMidnight 2028 1 15)) = Inr 1835395200
   \<and> toUnixInteger (atMidnight 2024 2 29) = 1709164800
   \<and> toUnixInteger (atMidnight 1971 6 1) = 44582400
   \<and> cron_previous now feb29 (Some (atMidnight 1971 6 1)) = Inr 3981312000
   \<and> toUnixInteger (atMidnight 2096 2 29) = 3981312000"
proof -
  have e: "toUnixInteger (atMidnight 2028 6 1) = 1843430400"
    "toUnixInteger (atMidnight 2028 2 29) = 1835395200"
    "toUnixInteger (atMidnight 2032 2 29) = 1961625600"
    "toUnixInteger (atMidnight 2097 6 1) = 4020883200"
    "toUnixInteger (atMidnight 1972 2 29) = 68169600"
    "toUnixInteger (atMidnight 2028 1 15) = 1831507200"
    "toUnixInteger (atMidnight 2024 2 29) = 1709164800"
    "toUnixInteger (atMidnight 1971 6 1) = 44582400"
    "toUnixInteger (atMidnight 2096 2 29) = 3981312000"
    by code_simp+
  have v: "cron_next now feb29 (Some refInstant) = Inr 1835395200"
    "cron_previous now feb29 (Some refInstant) = Inr 1709164800"
    "cron_next now feb29 (Some (atMidnight 2028 6 1)) = Inr 1835395200"
    "cron_next now feb29 (Some (atMidnight 2097 6 1)) = Inr 68169600"
    "cron_previous now feb29 (Some (atMidnight 2028 1 15)) = Inr 1835395200"
    "cron_previous now feb29 (Some (atMidnight 1971 6 1)) = Inr 3981312000"
    using e
    by (simp_all add: cron_next_def cron_previous_def next_feb29 prev_feb29 feb29_other_references)
  from constructor_feb29 v(1) v(2) e(1) v(3) e(2) e(3) e(4) v(4) e(5) e(6) v(5) e(7) e(8) v(6) e(9)
  show ?thesis by (intro conjI)
qed

section \<open>Order of the result and the reference instant\<close>

definition everyMidnight :: CronParser where
  "everyMidnight = initialParser\<lparr>minutes := plainField [0], hours := plainField [0],
      daysOfMonth := plainField [1..31], months := plainField [1..12]\<rparr>"

lemma constructor_everyMidnight: "constructor ''0 0 0 * * ?'' = ok everyMidnight"
  by code_simp

lemma next_everyMidnight: "getNextFireTime everyMidnight refInstant = Some (atMidnight 2025 9 28)"
  by code_simp

definition december :: CronParser where
  "december = initialParser\<lparr>minutes := plainField [0], hours := plainField [0],
      daysOfMonth := plainField [1..31], months := plainField [12]\<rparr>"

lemma constructor_december: "constructor ''0 0 0 * 12 ?'' = ok december"
  by code_simp

lemma prev_december: "getPreviousFireTime december refInstant = Some (atMidnight 2025 12 28)"
  by code_simp

text \<open>
  Claim C2.  \<open>getNextValue\<close> wraps to the first element instead of reporting that no
  element is left, and the search then does not carry into the larger unit.  For
  \<^verbatim>\<open>'0 0 0 * * ?'\<close> and the reference 2025-09-28T12:00:00Z (epoch 1759060800)
  \<open>cron_next\<close> returns 1759017600, midnight of the same day, which is before the
  reference.  For \<^verbatim>\<open>'0 0 0 * 12 ?'\<close> \<open>cron_previous\<close> returns 1766880000,
  2025-12-28T00:00:00Z, which is after it.
\<close>

theorem C2_next_not_after_reference:
  "constructor ''0 0 0 * * ?'' = ok everyMidnight
   \<and> toUnixInteger refInstant = 1759060800
   \<and> cron_next now everyMidnight (Some refInstant) = Inr 1759017600
   \<and> constructor ''0 0 0 * 12 ?'' = ok december
   \<and> cron_previous now december (Some refInstant) = Inr 1766880000"
proof -
  have e: "toUnixInteger refInstant = 1759060800"
    "toUnixInteger (atMidnight 2025 9 28) = 1759017600"
    "toUnixInteger (atMidnight 2025 12 28) = 1766880000"
    by code_simp+
  show ?thesis
    using constructor_everyMidnight constructor_december e
    by (simp add: cron_next_def cron_previous_def next_everyMidnight prev_december)
qed

section \<open>Nearest weekday\<close>

lemma daysFromCivil_succ: "daysFromCivil y m (d + 1) = daysFromCivil y m d + 1"
  by (simp add: daysFromCivil_def Let_def)

lemma daysFromCivil_pred: "daysFromCivil y m (d - 1) = daysFromCivil y m d - 1"
  by (simp add: daysFromCivil_def Let_def)

lemma weekdayOf_range: "1 \<le> weekdayOf y m d \<and> weekdayOf y m d \<le> 7"
  by (simp add: weekdayOf_def)

lemma weekdayOf_after_sunday: "weekdayOf y m d = 7 \<Longrightarrow> weekdayOf y m (d + 1) = 1"
  unfolding weekdayOf_def daysFromCivil_succ by presburger

lemma weekdayOf_before_saturday: "weekdayOf y m d = 6 \<Longrightarrow> weekdayOf y m (d - 1) = 5"
  unfolding weekdayOf_def daysFromCivil_pred by presburger

lemma nearestWeekday_daySet:
  assumes nw: "nearestWeekday (dayOfMonthModifiers p)"
    and nl: "\<not> lastDay (dayOfMonthModifiers p)" "\<not> lastWeekday (dayOfMonthModifiers p)"
    and tg: "vals (daysOfMonth p) = t # ts"
    and vm: "1 \<le> m" "m \<le> 12" and vd: "1 \<le> t" "t \<le> daysInMonth y m"
  shows "getDayOfMonthSet p y m =
           [if weekdayOf y m t = 6 then max 1 (t - 1)
            else if weekdayOf y m t = 7 then min (daysInMonth y m) (t + 1)
            else t]"
proof -
  have d28: "28 \<le> daysInMonth y m" by (simp add: daysInMonth_def)
  have w: "1 \<le> weekdayOf y m t" "weekdayOf y m t \<le> 7" using weekdayOf_range by simp_all
  have f1: "fromObject y m 1 0 0 0 \<noteq> None" using vm d28 by (simp add: fromObject_def)
  have f2: "fromObject y m t 0 0 0 =
              Some \<lparr>year = y, month = m, day = t, hour = 0, minute = 0, second = 0, millisecond = 0\<rparr>"
    using vm vd by (simp add: fromObject_def)
  have md: "weekdayOf y m t mod 7 = 0 \<longleftrightarrow> weekdayOf y m t = 7"
    "weekdayOf y m t mod 7 = 6 \<longleftrightarrow> weekdayOf y m t = 6"
    using w by presburger+
  from f1 obtain dt where "fromObject y m 1 0 0 0 = Some dt" by blast
  then show ?thesis
    using nw nl tg f2 md vd
    by (auto simp: getDayOfMonthSet_def Let_def nth0_def weekday_def)
qed

definition w26 :: CronParser where
  "w26 = initialParser\<lparr>minutes := plainField [0], hours := plainField [0],
      daysOfMonth := plainField [26], months := plainField [1..12],
      dayOfMonthModifiers := (dayOfMonthModifiers initialParser)\<lparr>nearestWeekday := True\<rparr>\<rparr>"

lemma constructor_w26: "constructor ''0 0 0 26W * ?'' = ok w26"
  by code_simp

lemma next_w26: "getNextFireTime w26 refInstant = Some (atMidnight 2025 9 26)"
  by code_simp

lemma next_w26_midnight: "getNextFireTime w26 (atMidnight 2025 9 28) = Some (atMidnight 2025 9 26)"
  by code_simp

text \<open>
  The resolved day of the nearest-weekday modifier, for a target day that exists in
  the month: the target itself on Monday to Friday, the day before on a Saturday (a
  Friday, unless the target is day 1, which stays), the day after on a Sunday (a
  Monday, unless the target is the last day of the month, which stays).
\<close>

theorem nearest_weekday_resolution:
  assumes "nearestWeekday (dayOfMonthModifiers p)"
    and "\<not> lastDay (dayOfMonthModifiers p)" and "\<not> lastWeekday (dayOfMonthModifiers p)"
    and "vals (daysOfMonth p) = t # ts"
    and "1 \<le> m" and "m \<le> 12" and "1 \<le> t" and "t \<le> daysInMonth y m"
  shows "\<exists>r. getDayOfMonthSet p y m = [r] \<and> 1 \<le> r \<and> r \<le> daysInMonth y m
           \<and> (weekdayOf y m t \<le> 5 \<longrightarrow> r = t)
           \<and> (weekdayOf y m t = 6 \<longrightarrow> r = max 1 (t - 1) \<and> (1 < t \<longrightarrow> weekdayOf y m r = 5))
           \<and> (weekdayOf y m t = 7 \<longrightarrow>
                 r = min (daysInMonth y m) (t + 1)
                 \<and> (t < daysInMonth y m \<longrightarrow> weekdayOf y m r = 1))"
proof -
  let ?r = "if weekdayOf y m t = 6 then max 1 (t - 1)
            else if weekdayOf y m t = 7 then min (daysInMonth y m) (t + 1) else t"
  have g: "getDayOfMonthSet p y m = [?r]" using nearestWeekday_daySet[OF assms] .
  have w: "weekdayOf y m t \<le> 7" using weekdayOf_range by simp
  have b: "1 \<le> ?r \<and> ?r \<le> daysInMonth y m" using assms(7,8) by auto
  have sat: "weekdayOf y m t = 6 \<Longrightarrow> 1 < t \<Longrightarrow> weekdayOf y m (max 1 (t - 1)) = 5"
    using weekdayOf_before_saturday[of y m t] by (simp add: max_def)
  have sun: "weekdayOf y m (min (daysInMonth y m) (t + 1)) = 1"
    if "weekdayOf y m t = 7" and "t < daysInMonth y m"
  proof -
    from that(2) have "min (daysInMonth y m) (t + 1) = t + 1" by simp
    with weekdayOf_after_sunday[OF that(1)] show ?thesis by simp
  qed
  show ?thesis
    apply (rule exI[of _ ?r])
    using g b w sat sun by auto
qed

theorem nearest_weekday_resolution_witness:
  "weekdayOf 2025 10 26 = 7 \<and> getDayOfMonthSet w26 2025 10 = [27] \<and> weekdayOf 2025 10 27 = 1
   \<and> weekdayOf 2025 9 26 = 5 \<and> getDayOfMonthSet w26 2025 9 = [26]"
proof -
  have e: "weekdayOf 2025 10 26 = 7" "weekdayOf 2025 10 27 = 1" "weekdayOf 2025 9 26 = 5"
    "daysInMonth 2025 10 = 31" "daysInMonth 2025 9 = 30"
    by code_simp+
  have p: "nearestWeekday (dayOfMonthModifiers w26)" "\<not> lastDay (dayOfMonthModifiers w26)"
    "\<not> lastWeekday (dayOfMonthModifiers w26)" "vals (daysOfMonth w26) = 26 # []"
    by (simp_all add: w26_def plainField_def initialParser_def)
  from nearest_weekday_resolution[OF p, where m = 10 and y = 2025]
    nearest_weekday_resolution[OF p, where m = 9 and y = 2025] e
  show ?thesis by auto
qed

text \<open>
  Claim C8.  For \<^verbatim>\<open>'0 0 0 26W * ?'\<close> the resolved day is 26 in September 2025 (a
  Friday) and 27 in October 2025 (the 26th is a Sunday).  The forward search from
  2025-09-28, at noon as at midnight, does not reach October: the day pick wraps to
  26 within September and \<open>cron_next\<close> returns 1758844800, 2025-09-26T00:00:00Z,
  not 1761523200, 2025-10-27T00:00:00Z.
\<close>

theorem C8_w26_resolves_backwards:
  "constructor ''0 0 0 26W * ?'' = ok w26
   \<and> getDayOfMonthSet w26 2025 9 = [26] \<and> getDayOfMonthSet w26 2025 10 = [27]
   \<and> toUnixInteger refInstant = 1759060800
   \<and> cron_next now w26 (Some refInstant) = Inr 1758844800
   \<and> cron_next now w26 (Some (atMidnight 2025 9 28)) = Inr 1758844800
   \<and> toUnixInteger (atMidnight 2025 9 26) = 1758844800
   \<and> toUnixInteger (atMidnight 2025 10 27) = 1761523200"
proof -
  have e: "toUnixInteger refInstant = 1759060800"
    "toUnixInteger (atMidnight 2025 9 26) = 1758844800"
    "toUnixInteger (atMidnight 2025 10 27) = 1761523200"
    "getDayOfMonthSet w26 2025 9 = [26]" "getDayOfMonthSet w26 2025 10 = [27]"
    by code_simp+
  show ?thesis
    using constructor_w26 e
    by (simp add: cron_next_def next_w26 next_w26_midnight)
qed

end
